theory Spec2Isabelle
  imports Main
begin

section \<open>PDF Studio: the edit-state model and the rebuild/commit engine\<close>

text \<open>
  The development follows \<^verbatim>\<open>src/script.js\<close> (PDF Studio v3). The module-level object
  \<^verbatim>\<open>S\<close> is a record that every handler takes and returns. The two libraries the
  script calls are outside the repository: pdf-lib (the structural codec) and PDF.js (page
  counting and rendering). A pdf-lib document handle is the list of its pages, a page is
  its content together with its \<^verbatim>\<open>/Rotate\<close> entry, and the three functions
  that cross the byte boundary (\<^verbatim>\<open>PDFDocument.load\<close>, \<^verbatim>\<open>doc.save\<close>,
  \<^verbatim>\<open>pdfjsLib.getDocument(...).numPages\<close>) are parameters collected in a record,
  each of which may fail. Rendering (canvas drawing, thumbnails, toasts) has no effect on
  \<^verbatim>\<open>S\<close> other than \<^verbatim>\<open>previewMain\<close>'s update of \<^verbatim>\<open>curPage\<close> and is taken to
  succeed.
\<close>

subsection \<open>JavaScript values and arithmetic\<close>

text \<open>
  An entry of \<^verbatim>\<open>S.pageOrder\<close> is a JavaScript number, or \<^verbatim>\<open>undefined\<close> when
  \<^verbatim>\<open>splice(i, 1)[0]\<close> or \<^verbatim>\<open>arr[i]\<close> reads past the end of the array.
\<close>

datatype jsnum = Num int | Undefined

text \<open>
  JavaScript's \<^verbatim>\<open>a % b\<close> truncates towards zero: the result has the sign of the
  dividend (\<^verbatim>\<open>-90 % 360 === -90\<close>).
\<close>

definition js_rem :: "int \<Rightarrow> int \<Rightarrow> int" where
  "js_rem a b = sgn a * (\<bar>a\<bar> mod \<bar>b\<bar>)"

text \<open>\<^verbatim>\<open>Array.from({ length: n }, (_, i) => i)\<close>\<close>

definition identityOrder :: "nat \<Rightarrow> jsnum list" where
  "identityOrder n = map (\<lambda>i. Num (int i)) [0..<n]"

text \<open>\<^verbatim>\<open>arr[i]\<close>: \<^verbatim>\<open>undefined\<close> out of range.\<close>

definition entryAt :: "jsnum list \<Rightarrow> nat \<Rightarrow> jsnum" where
  "entryAt xs i = (if i < length xs then xs ! i else Undefined)"

text \<open>
  \<^verbatim>\<open>arr.splice(i, 1)\<close> for \<^verbatim>\<open>i \<ge> 0\<close>: removes the element at \<open>i\<close>, and
  nothing when \<open>i\<close> is past the end. \<^verbatim>\<open>arr.splice(i, 0, x)\<close>: inserts \<open>x\<close> before
  position \<open>i\<close>, at the end when \<open>i\<close> is past the end.
\<close>

definition spliceOut :: "nat \<Rightarrow> 'a list \<Rightarrow> 'a list" where
  "spliceOut i xs = take i xs @ drop (Suc i) xs"

definition spliceIn :: "nat \<Rightarrow> 'a \<Rightarrow> 'a list \<Rightarrow> 'a list" where
  "spliceIn i x xs = take i xs @ x # drop i xs"

subsection \<open>The codec\<close>

text \<open>
  A page: its content and its rotation entry (\<open>None\<close> when
  \<^verbatim>\<open>page.getRotation()\<close> gives no angle).
\<close>

record 'c page =
  content :: 'c
  rotation :: "int option"

text \<open>
  The byte-level functions of the two libraries. \<open>pdf_load\<close> is
  \<^verbatim>\<open>PDFDocument.load(bytes, { ignoreEncryption: true })\<close>, \<open>pdf_save\<close> is
  \<^verbatim>\<open>doc.save()\<close>, \<open>pdfjs_numPages\<close> is
  \<^verbatim>\<open>(await pdfjsLib.getDocument({ data }).promise).numPages\<close>; \<open>None\<close> is a
  rejected promise.
\<close>

record ('b, 'c) codec =
  pdf_load :: "'b \<Rightarrow> 'c page list option"
  pdf_save :: "'c page list \<Rightarrow> 'b option"
  pdfjs_numPages :: "'b \<Rightarrow> nat option"

text \<open>The codec calls a run makes, in order.\<close>

datatype call =
  Load | Create | CopyPages "jsnum list"
  | GetRotation | SetRotation int | AddPage | Save

text \<open>
  \<^verbatim>\<open>dest.copyPages(src, indices)\<close> gives a fresh copy of each named page, in the order
  of \<open>indices\<close>, and fails when an index names no page of \<open>src\<close>.
\<close>

fun copyPage :: "'c page list \<Rightarrow> jsnum \<Rightarrow> 'c page option" where
  "copyPage src (Num i) = (if 0 \<le> i \<and> i < int (length src) then Some (src ! nat i) else None)"
| "copyPage src Undefined = None"

definition copyPages :: "'c page list \<Rightarrow> jsnum list \<Rightarrow> 'c page list option" where
  "copyPages src indices = those (map (copyPage src) indices)"

text \<open>\<^verbatim>\<open>doc.getPageIndices()\<close>\<close>

definition getPageIndices :: "'c page list \<Rightarrow> jsnum list" where
  "getPageIndices doc = identityOrder (length doc)"

text \<open>
  \<^verbatim>\<open>
  function getPageRotationAngle(page) {
    try {
      const r = page.getRotation();
      return (r && typeof r.angle === 'number') ? r.angle : 0;
    } catch (_) { return 0; }
  }
  \<close>
\<close>

definition getPageRotationAngle :: "'c page \<Rightarrow> int" where
  "getPageRotationAngle p = (case rotation p of None \<Rightarrow> 0 | Some a \<Rightarrow> a)"

subsection \<open>The session state\<close>

text \<open>
  The fields of \<^verbatim>\<open>S\<close> that the edit engine reads or writes. \<open>pdfJsDoc\<close> keeps the
  page count of the PDF.js document (\<open>None\<close> for \<^verbatim>\<open>null\<close>); \<open>pageRots\<close> is the
  object \<^verbatim>\<open>{ origIdx: extraDegrees }\<close>, keyed by the entry of \<open>pageOrder\<close>;
  \<open>selectedPgs\<close> is the \<^verbatim>\<open>Set\<close> of order positions; \<open>mergeFiles\<close> holds the bytes
  of the files queued for merging.
\<close>

record ('b) S =
  pdfJsDoc :: "nat option"
  rawBytes :: "'b option"
  pageOrder :: "jsnum list"
  pageRots :: "jsnum \<rightharpoonup> int"
  selectedPgs :: "nat set"
  curPage :: nat
  totalPages :: nat
  mergeFiles :: "'b list"

text \<open>
  What a handler reports. Every \<^verbatim>\<open>throw\<close>, every \<^verbatim>\<open>toast(..., 'error'); return\<close>
  and every bare guard \<^verbatim>\<open>return\<close> of the script is one of these values.
\<close>

datatype error =
  NoPdfLoaded           \<comment> \<open>\<^verbatim>\<open>if (!S.rawBytes)\<close>\<close>
  | SourceUnreadable    \<comment> \<open>\<^verbatim>\<open>PDFDocument.load\<close> rejects\<close>
  | CodecCopyError      \<comment> \<open>\<^verbatim>\<open>copyPages\<close> rejects\<close>
  | CodecSaveError      \<comment> \<open>\<^verbatim>\<open>save\<close> rejects\<close>
  | CodecRotationError  \<comment> \<open>\<^verbatim>\<open>setRotation\<close> throws\<close>
  | ReferenceError      \<comment> \<open>an identifier that is not declared\<close>
  | StateCorruption     \<comment> \<open>\<^verbatim>\<open>"Internal page order corruption detected."\<close>\<close>
  | PdfJsError          \<comment> \<open>\<^verbatim>\<open>pdfjsLib.getDocument\<close> rejects\<close>
  | EmptyText           \<comment> \<open>\<^verbatim>\<open>'Enter some text first.'\<close>\<close>
  | BadPage             \<comment> \<open>\<^verbatim>\<open>okPage\<close> is false\<close>
  | MutationError       \<comment> \<open>embedding or drawing throws\<close>
  | EmptySelection      \<comment> \<open>\<^verbatim>\<open>if (!S.selectedPgs.size) return\<close>\<close>
  | CannotDeleteAll     \<comment> \<open>\<^verbatim>\<open>'Cannot delete all pages.'\<close>\<close>
  | Cancelled           \<comment> \<open>\<^verbatim>\<open>confirm(...)\<close> is false\<close>
  | InsufficientInputs  \<comment> \<open>\<^verbatim>\<open>if (S.mergeFiles.length < 2) return\<close>\<close>
  | InvalidRange        \<comment> \<open>\<^verbatim>\<open>'Invalid page range.'\<close>\<close>

text \<open>The step of the content-edit protocol at which a handler stopped.\<close>

datatype step = Guard | Rebuild | Reload | Mutation | Serialize | Commit

subsection \<open>Rebuild\<close>

text \<open>
  pdf-lib's \<^verbatim>\<open>page.setRotation(degrees(a))\<close> asserts that the angle is a multiple of 90
  (\<^verbatim>\<open>a % 90 === 0\<close>) and throws otherwise; when it accepts, it writes the page's
  \<^verbatim>\<open>/Rotate\<close> entry.
\<close>

definition setRotation :: "int \<Rightarrow> 'c page \<Rightarrow> 'c page option" where
  "setRotation a p = (if js_rem a 90 = 0 then Some (p\<lparr>rotation := Some a\<rparr>) else None)"

text \<open>
  The body of \<^verbatim>\<open>pages.forEach((page, i) => ...)\<close> in \<^verbatim>\<open>rebuild\<close>:
  \<^verbatim>\<open>
  const origIdx = S.pageOrder[i];
  const extra   = S.pageRots[origIdx] || 0;
  if (extra !== 0) {
    const cur = getPageRotationAngle(page);
    page.setRotation(degrees((cur + extra) % 360));
  }
  dest.addPage(page);
  \<close>
  It gives the calls made and either the page added to \<^verbatim>\<open>dest\<close> or the error thrown
  by \<^verbatim>\<open>setRotation\<close>.
\<close>

definition extraOf :: "(jsnum \<rightharpoonup> int) \<Rightarrow> jsnum \<Rightarrow> int" where
  "extraOf rots origIdx = (case rots origIdx of None \<Rightarrow> 0 | Some v \<Rightarrow> v)"

definition rebuildPage ::
  "(jsnum \<rightharpoonup> int) \<Rightarrow> jsnum \<Rightarrow> 'c page \<Rightarrow> call list \<times> (error + 'c page)" where
  "rebuildPage rots origIdx p =
     (let extra = extraOf rots origIdx in
      if extra \<noteq> 0
      then (let cur = getPageRotationAngle p; a = js_rem (cur + extra) 360
            in case setRotation a p of
                 None \<Rightarrow> ([GetRotation, SetRotation a], Inl CodecRotationError)
               | Some p' \<Rightarrow> ([GetRotation, SetRotation a, AddPage], Inr p'))
      else ([AddPage], Inr p))"

text \<open>
  \<^verbatim>\<open>pages.forEach(...)\<close>: the callback runs on the copied pages in order, each paired
  with its entry of the order table; an exception in the callback ends the loop.
\<close>

fun forEachPage ::
  "(jsnum \<Rightarrow> 'c page \<Rightarrow> call list \<times> (error + 'c page)) \<Rightarrow> (jsnum \<times> 'c page) list
     \<Rightarrow> call list \<times> (error + 'c page list)" where
  "forEachPage f [] = ([], Inr [])"
| "forEachPage f ((origIdx, p) # rest) =
     (case f origIdx p of
        (calls, Inl e) \<Rightarrow> (calls, Inl e)
      | (calls, Inr p') \<Rightarrow>
          (case forEachPage f rest of
             (calls', Inl e) \<Rightarrow> (calls @ calls', Inl e)
           | (calls', Inr ps) \<Rightarrow> (calls @ calls', Inr (p' # ps))))"

text \<open>
  \<^verbatim>\<open>
  async function rebuild() {
    if (!S.rawBytes) throw new Error('No PDF loaded.');
    const src  = await PDFDocument.load(S.rawBytes, { ignoreEncryption: true });
    const dest = await PDFDocument.create();
    const pages = await dest.copyPages(src, S.pageOrder);
    pages.forEach((page, i) => { ... });
    return dest.save();
  }
  \<close>
  The result is the list of codec calls made and either the error thrown or the bytes.
\<close>

definition rebuild :: "('b, 'c) codec \<Rightarrow> 'b S \<Rightarrow> call list \<times> (error + 'b)" where
  "rebuild cd s =
     (case rawBytes s of
        None \<Rightarrow> ([], Inl NoPdfLoaded)
      | Some bytes \<Rightarrow>
          (case pdf_load cd bytes of
             None \<Rightarrow> ([Load], Inl SourceUnreadable)
           | Some src \<Rightarrow>
               (case copyPages src (pageOrder s) of
                  None \<Rightarrow> ([Load, Create, CopyPages (pageOrder s)], Inl CodecCopyError)
                | Some pages \<Rightarrow>
                    (case forEachPage (rebuildPage (pageRots s)) (zip (pageOrder s) pages) of
                       (calls, Inl e) \<Rightarrow>
                         ([Load, Create, CopyPages (pageOrder s)] @ calls, Inl e)
                     | (calls, Inr dest) \<Rightarrow>
                         ([Load, Create, CopyPages (pageOrder s)] @ calls @ [Save],
                          case pdf_save cd dest of
                            None \<Rightarrow> Inl CodecSaveError
                          | Some out \<Rightarrow> Inr out)))))"

text \<open>\<^verbatim>\<open>Number.isInteger(i) && i >= 0 && i < cnt\<close>\<close>

fun safeEntry :: "nat \<Rightarrow> jsnum \<Rightarrow> bool" where
  "safeEntry cnt (Num i) = (0 \<le> i \<and> i < int cnt)"
| "safeEntry cnt Undefined = False"

subsection \<open>Rebuild in the other revisions\<close>

text \<open>
  \<^verbatim>\<open>src/unnamed/part_000\<close> (PDF Studio v4) adds a check of the order table to
  \<^verbatim>\<open>rebuild\<close>:
  \<^verbatim>\<open>
  async function rebuild() {
    if (!S.rawBytes) throw new Error('No PDF loaded.');
    const src  = await PDFDocument.load(S.rawBytes, { ignoreEncryption: true });
    const dest = await PDFDocument.create();
    const total = src.getPageCount();
    const safeOrder = S.pageOrder.filter(i =>
      Number.isInteger(i) && i >= 0 && i < total);
    if (safeOrder.length !== S.pageOrder.length) {
      throw new Error("Internal page order corruption detected.");
    }
    ...
  \<close>
  That file is in strict mode and never declares \<^verbatim>\<open>PDFDocument\<close> (its other handlers
  write \<^verbatim>\<open>PDFLib.PDFDocument\<close>), so evaluating \<^verbatim>\<open>PDFDocument.load\<close> throws a
  \<^verbatim>\<open>ReferenceError\<close> before the codec is called: the check is never reached.
\<close>

definition rebuild_v4 :: "'b S \<Rightarrow> call list \<times> (error + 'b)" where
  "rebuild_v4 s =
     (case rawBytes s of
        None \<Rightarrow> ([], Inl NoPdfLoaded)
      | Some bytes \<Rightarrow> ([], Inl ReferenceError))"

text \<open>
  \<^verbatim>\<open>src/unnamed/part_001\<close> keeps its own state object, of which \<^verbatim>\<open>rebuild\<close> reads
  \<^verbatim>\<open>rawBytes\<close>, \<^verbatim>\<open>pageCount\<close> (PDF.js's \<^verbatim>\<open>numPages\<close> at upload),
  \<^verbatim>\<open>pageOrder\<close> and \<^verbatim>\<open>rotations\<close>. Its \<^verbatim>\<open>rebuild\<close> checks the order table
  before it calls the codec:
  \<^verbatim>\<open>
  async function rebuild() {
    if (!S.rawBytes) return;
    const totalSrcPages = S.pageCount;
    const safeOrder = S.pageOrder.filter(i =>
      Number.isInteger(i) && i >= 0 && i < totalSrcPages);
    if (safeOrder.length !== S.pageOrder.length) {
      console.error("Corrupted pageOrder:", S.pageOrder);
      alert("Internal page order corruption detected.");
      return;
    }
    const srcDoc = await PDFLib.PDFDocument.load(S.rawBytes);
    const newDoc = await PDFLib.PDFDocument.create();
    const copiedPages = await newDoc.copyPages(srcDoc, safeOrder);
    copiedPages.forEach((page, idx) => {
      const originalIndex = safeOrder[idx];
      const rotation = S.rotations[originalIndex];
      if (rotation) {
        page.setRotation(PDFLib.degrees(rotation));
      }
      newDoc.addPage(page);
    });
    const finalBytes = await newDoc.save();
    ...
  }
  \<close>
  Here the codec's \<open>pdf_load\<close> stands for \<^verbatim>\<open>PDFLib.PDFDocument.load(bytes)\<close>, without
  the option.
\<close>

record 'b S_part_001 =
  rawBytes1 :: "'b option"
  pageCount :: nat
  pageOrder1 :: "jsnum list"
  rotations :: "jsnum \<rightharpoonup> int"

definition rebuildPage_part_001 ::
  "(jsnum \<rightharpoonup> int) \<Rightarrow> jsnum \<Rightarrow> 'c page \<Rightarrow> call list \<times> (error + 'c page)" where
  "rebuildPage_part_001 rots originalIndex p =
     (let rotation = extraOf rots originalIndex in
      if rotation \<noteq> 0
      then (case setRotation rotation p of
              None \<Rightarrow> ([SetRotation rotation], Inl CodecRotationError)
            | Some p' \<Rightarrow> ([SetRotation rotation, AddPage], Inr p'))
      else ([AddPage], Inr p))"

definition rebuild_part_001 ::
  "('b, 'c) codec \<Rightarrow> 'b S_part_001 \<Rightarrow> call list \<times> (error + 'b)" where
  "rebuild_part_001 cd s =
     (case rawBytes1 s of
        None \<Rightarrow> ([], Inl NoPdfLoaded)
      | Some bytes \<Rightarrow>
          (let totalSrcPages = pageCount s;
               safeOrder = filter (safeEntry totalSrcPages) (pageOrder1 s)
           in if length safeOrder \<noteq> length (pageOrder1 s)
              then ([], Inl StateCorruption)
              else
                (case pdf_load cd bytes of
                   None \<Rightarrow> ([Load], Inl SourceUnreadable)
                 | Some srcDoc \<Rightarrow>
                     (case copyPages srcDoc safeOrder of
                        None \<Rightarrow> ([Load, Create, CopyPages safeOrder], Inl CodecCopyError)
                      | Some copiedPages \<Rightarrow>
                          (case forEachPage (rebuildPage_part_001 (rotations s))
                                            (zip safeOrder copiedPages) of
                             (calls, Inl e) \<Rightarrow>
                               ([Load, Create, CopyPages safeOrder] @ calls, Inl e)
                           | (calls, Inr newDoc) \<Rightarrow>
                               ([Load, Create, CopyPages safeOrder] @ calls @ [Save],
                                case pdf_save cd newDoc of
                                  None \<Rightarrow> Inl CodecSaveError
                                | Some finalBytes \<Rightarrow> Inr finalBytes))))))"

subsection \<open>Installing bytes\<close>

text \<open>
  The state effect of \<^verbatim>\<open>previewMain(pg)\<close>:
  \<^verbatim>\<open>
  if (!S.pdfJsDoc) return;
  pg = Math.max(1, Math.min(pg ?? S.curPage, S.totalPages));
  S.curPage = pg;
  \<close>
\<close>

definition previewMain :: "nat option \<Rightarrow> 'b S \<Rightarrow> 'b S" where
  "previewMain pg s =
     (case pdfJsDoc s of
        None \<Rightarrow> s
      | Some _ \<Rightarrow>
          s\<lparr>curPage := max 1 (min (case pg of None \<Rightarrow> curPage s | Some p \<Rightarrow> p) (totalPages s))\<rparr>)"

text \<open>
  \<^verbatim>\<open>
  async function ingestBytes(bytes, isNew = false) {
    S.rawBytes  = bytes;
    S.pdfJsDoc  = await pdfjsLib.getDocument({ data: bytes.slice() }).promise;
    S.totalPages = S.pdfJsDoc.numPages;
    if (isNew) {
      S.pageOrder  = Array.from({ length: S.totalPages }, (_, i) => i);
      S.pageRots   = {};
      S.selectedPgs.clear();
      S.curPage = 1;
    }
  }
  \<close>
  When PDF.js rejects, the assignment to \<^verbatim>\<open>S.rawBytes\<close> has already happened.
\<close>

definition ingestBytes :: "('b, 'c) codec \<Rightarrow> 'b \<Rightarrow> bool \<Rightarrow> 'b S \<Rightarrow> 'b S \<times> (error + unit)" where
  "ingestBytes cd bytes isNew s =
     (let s1 = s\<lparr>rawBytes := Some bytes\<rparr> in
      case pdfjs_numPages cd bytes of
        None \<Rightarrow> (s1, Inl PdfJsError)
      | Some n \<Rightarrow>
          (let s2 = s1\<lparr>pdfJsDoc := Some n, totalPages := n\<rparr> in
           if isNew
           then (s2\<lparr>pageOrder := identityOrder n, pageRots := Map.empty,
                    selectedPgs := {}, curPage := 1\<rparr>, Inr ())
           else (s2, Inr ())))"

text \<open>
  \<^verbatim>\<open>
  async function applyEdit(bytes) {
    const prevPage = S.curPage;
    S.rawBytes    = bytes;
    S.pdfJsDoc    = await pdfjsLib.getDocument({ data: bytes.slice() }).promise;
    S.totalPages  = S.pdfJsDoc.numPages;
    S.pageOrder   = Array.from({ length: S.totalPages }, (_, i) => i);
    S.pageRots    = {};
    S.curPage     = Math.min(prevPage, S.totalPages);
    updateNav();
    updateSplitHint();
    await previewMain(S.curPage);
  }
  \<close>
\<close>

definition applyEdit :: "('b, 'c) codec \<Rightarrow> 'b \<Rightarrow> 'b S \<Rightarrow> 'b S \<times> (error + unit)" where
  "applyEdit cd bytes s =
     (let prevPage = curPage s;
          s1 = s\<lparr>rawBytes := Some bytes\<rparr>
      in case pdfjs_numPages cd bytes of
           None \<Rightarrow> (s1, Inl PdfJsError)
         | Some n \<Rightarrow>
             (let s2 = s1\<lparr>pdfJsDoc := Some n, totalPages := n, pageOrder := identityOrder n,
                          pageRots := Map.empty, curPage := min prevPage n\<rparr>
              in (previewMain (Some (curPage s2)) s2, Inr ())))"

text \<open>
  The first revision of the script (the second file of \<^verbatim>\<open>src/unnamed/part_000\<close>)
  committed an edit with \<^verbatim>\<open>reloadFromBytes\<close>, which \<^verbatim>\<open>applyEdit\<close> replaced. It
  resets the order table and the ledger only when the page count has changed:
  \<^verbatim>\<open>
  async function reloadFromBytes(bytes) {
    state.rawBytes = bytes;
    state.pdfDoc = await PDFLib.PDFDocument.load(bytes, { ignoreEncryption: true });
    state.pdfJsDoc = await pdfjsLib.getDocument({ data: bytes }).promise;
    state.totalPages = state.pdfJsDoc.numPages;
    if (state.pageOrder.length !== state.totalPages) {
      state.pageOrder = Array.from({ length: state.totalPages }, (_, i) => i);
      state.pageRotations = {};
    }
    await renderPreview();
  }
  \<close>
  \<^verbatim>\<open>renderPreview()\<close> has \<^verbatim>\<open>previewMain\<close>'s effect on the state.
\<close>

definition reloadFromBytes :: "('b, 'c) codec \<Rightarrow> 'b \<Rightarrow> 'b S \<Rightarrow> 'b S \<times> (error + unit)" where
  "reloadFromBytes cd bytes s =
     (let s1 = s\<lparr>rawBytes := Some bytes\<rparr>
      in case pdf_load cd bytes of
           None \<Rightarrow> (s1, Inl SourceUnreadable)
         | Some _ \<Rightarrow>
             (case pdfjs_numPages cd bytes of
                None \<Rightarrow> (s1, Inl PdfJsError)
              | Some n \<Rightarrow>
                  (let s2 = s1\<lparr>pdfJsDoc := Some n, totalPages := n\<rparr>;
                       s3 = (if length (pageOrder s2) \<noteq> totalPages s2
                             then s2\<lparr>pageOrder := identityOrder n, pageRots := Map.empty\<rparr>
                             else s2)
                   in (previewMain None s3, Inr ()))))"

subsection \<open>Structural edits: reorder, select, delete, rotate\<close>

text \<open>
  The \<^verbatim>\<open>onEnd(ev)\<close> callback given to Sortable, with \<^verbatim>\<open>ev.oldIndex\<close> and
  \<^verbatim>\<open>ev.newIndex\<close>:
  \<^verbatim>\<open>
  const moved = S.pageOrder.splice(ev.oldIndex, 1)[0];
  S.pageOrder.splice(ev.newIndex, 0, moved);
  ...
  S.selectedPgs.clear();
  \<close>
\<close>

definition onEnd :: "nat \<Rightarrow> nat \<Rightarrow> 'b S \<Rightarrow> 'b S" where
  "onEnd oldIndex newIndex s =
     (let moved = entryAt (pageOrder s) oldIndex;
          rest = spliceOut oldIndex (pageOrder s)
      in s\<lparr>pageOrder := spliceIn newIndex moved rest, selectedPgs := {}\<rparr>)"

text \<open>
  A click on the thumbnail at order position \<open>idx\<close> toggles its membership in the
  selection; \<^verbatim>\<open>selectAllBtn\<close> adds every position.
\<close>

definition thumbClick :: "nat \<Rightarrow> 'b S \<Rightarrow> 'b S" where
  "thumbClick idx s =
     (if idx \<in> selectedPgs s then s\<lparr>selectedPgs := selectedPgs s - {idx}\<rparr>
      else s\<lparr>selectedPgs := insert idx (selectedPgs s)\<rparr>)"

definition selectAllBtn :: "'b S \<Rightarrow> 'b S" where
  "selectAllBtn s = s\<lparr>selectedPgs := selectedPgs s \<union> {0..<length (pageOrder s)}\<rparr>"

text \<open>
  \<^verbatim>\<open>
  $('deleteSelectedBtn').addEventListener('click', async () => {
    if (!S.selectedPgs.size) return;
    if (S.selectedPgs.size >= S.pageOrder.length) { toast('Cannot delete all pages.', 'error'); return; }
    if (!confirm(`Delete ${S.selectedPgs.size} page(s)?`)) return;
    [...S.selectedPgs].sort((a,b)=>b-a).forEach(i => S.pageOrder.splice(i,1));
    S.selectedPgs.clear();
    S.totalPages = S.pageOrder.length;
    S.curPage    = Math.min(S.curPage, S.totalPages);
    updateNav(); updateSplitHint();
    await renderGrid(); previewMain(S.curPage);
    toast('Pages deleted.', 'success');
  });
  \<close>
  The answer to the \<^verbatim>\<open>confirm\<close> dialog is the argument \<open>confirmed\<close>.
\<close>

definition deleteSelectedBtn :: "bool \<Rightarrow> 'b S \<Rightarrow> 'b S \<times> (error + unit)" where
  "deleteSelectedBtn confirmed s =
     (if card (selectedPgs s) = 0 then (s, Inl EmptySelection)
      else if card (selectedPgs s) \<ge> length (pageOrder s) then (s, Inl CannotDeleteAll)
      else if \<not> confirmed then (s, Inl Cancelled)
      else
        (let order' = fold spliceOut (rev (sorted_list_of_set (selectedPgs s))) (pageOrder s);
             s1 = s\<lparr>pageOrder := order', selectedPgs := {}, totalPages := length order',
                      curPage := min (curPage s) (length order')\<rparr>
         in (previewMain (Some (curPage s1)) s1, Inr ())))"

text \<open>
  \<^verbatim>\<open>
  async function rotateSel(deg) {
    if (!S.selectedPgs.size) return;
    const cnt = S.selectedPgs.size;
    S.selectedPgs.forEach(i => {
      const orig = S.pageOrder[i];
      S.pageRots[orig] = ((S.pageRots[orig] || 0) + deg + 360) % 360;
    });
    S.selectedPgs.clear();
    await renderGrid(); previewMain(S.curPage);
    toast(`Rotated ${cnt} page(s).`, 'success');
  }
  \<close>
  The selection is visited in increasing order here; the updates of distinct positions
  commute, so the visiting order of the \<^verbatim>\<open>Set\<close> does not matter.
\<close>

definition rotateOne :: "jsnum list \<Rightarrow> int \<Rightarrow> nat \<Rightarrow> (jsnum \<rightharpoonup> int) \<Rightarrow> (jsnum \<rightharpoonup> int)" where
  "rotateOne order deg i rots =
     (let orig = entryAt order i
      in rots(orig \<mapsto> js_rem (extraOf rots orig + deg + 360) 360))"

definition rotateSel :: "int \<Rightarrow> 'b S \<Rightarrow> 'b S \<times> (error + unit)" where
  "rotateSel deg s =
     (if card (selectedPgs s) = 0 then (s, Inl EmptySelection)
      else
        (let rots' = fold (rotateOne (pageOrder s) deg) (sorted_list_of_set (selectedPgs s))
                          (pageRots s);
             s1 = s\<lparr>pageRots := rots', selectedPgs := {}\<rparr>
         in (previewMain (Some (curPage s1)) s1, Inr ())))"

subsection \<open>Content edits\<close>

text \<open>
  \<^verbatim>\<open>
  function okPage(n) {
    if (!Number.isFinite(n) || n < 1 || n > S.totalPages) { toast(...); return false; }
    return true;
  }
  \<close>
  The argument is the result of \<^verbatim>\<open>parseInt\<close>: \<open>None\<close> is \<^verbatim>\<open>NaN\<close>.
\<close>

definition okPage :: "'b S \<Rightarrow> int option \<Rightarrow> bool" where
  "okPage s n = (case n of None \<Rightarrow> False | Some k \<Rightarrow> \<not> (k < 1 \<or> k > int (totalPages s)))"

text \<open>
  The content mutation of \<^verbatim>\<open>addTextBtn\<close>: embed the font, take
  \<^verbatim>\<open>doc.getPages()[pg - 1]\<close>, read its size and draw the text on it. \<open>draw\<close> is the
  codec's drawing on one page's content (\<open>None\<close> when it throws); reading the size of a
  page that does not exist throws.
\<close>

definition drawOnPage :: "('c \<Rightarrow> 'c option) \<Rightarrow> 'c page list \<Rightarrow> nat \<Rightarrow> 'c page list option" where
  "drawOnPage draw doc k =
     (if k < length doc
      then (case draw (content (doc ! k)) of
              None \<Rightarrow> None
            | Some c \<Rightarrow> Some (doc[k := (doc ! k)\<lparr>content := c\<rparr>]))
      else None)"

text \<open>
  \<^verbatim>\<open>
  $('addTextBtn').addEventListener('click', async () => {
    if (!S.rawBytes) return;
    const text = $('overlayText').value.trim();
    if (!text) { toast('Enter some text first.', 'error'); return; }
    const pg   = parseInt($('textPage').value,  10); if (!okPage(pg)) return;
    ...
    try {
      const base  = await rebuild();
      const doc   = await PDFDocument.load(base, { ignoreEncryption: true });
      const font  = await doc.embedFont(StandardFonts.Helvetica);
      const page  = doc.getPages()[pg - 1];
      const { height } = page.getSize();
      page.drawText(text, { ... });
      await applyEdit(await doc.save());
      setPlaceMode(null);
      toast('Text added!', 'success');
    } catch (e) {
      console.error(e); toast(`Text failed: ${e.message}`, 'error');
    } finally { loading(false); }
  });
  \<close>
  \<open>text\<close> is the trimmed input. A failure carries the step at which it happened.
\<close>

definition addTextBtn ::
  "('b, 'c) codec \<Rightarrow> ('c \<Rightarrow> 'c option) \<Rightarrow> string \<Rightarrow> int option \<Rightarrow> 'b S
     \<Rightarrow> 'b S \<times> (step \<times> error + unit)" where
  "addTextBtn cd draw text pg s =
     (if rawBytes s = None then (s, Inl (Guard, NoPdfLoaded))
      else if text = [] then (s, Inl (Guard, EmptyText))
      else if \<not> okPage s pg then (s, Inl (Guard, BadPage))
      else
        (case snd (rebuild cd s) of
           Inl e \<Rightarrow> (s, Inl (Rebuild, e))
         | Inr base \<Rightarrow>
             (case pdf_load cd base of
                None \<Rightarrow> (s, Inl (Reload, SourceUnreadable))
              | Some doc \<Rightarrow>
                  (case drawOnPage draw doc (nat (the pg - 1)) of
                     None \<Rightarrow> (s, Inl (Mutation, MutationError))
                   | Some doc' \<Rightarrow>
                       (case pdf_save cd doc' of
                          None \<Rightarrow> (s, Inl (Serialize, CodecSaveError))
                        | Some commit \<Rightarrow>
                            (case applyEdit cd commit s of
                               (s', Inl e) \<Rightarrow> (s', Inl (Commit, e))
                             | (s', Inr _) \<Rightarrow> (s', Inr ())))))))"

subsection \<open>Merge and split\<close>

text \<open>
  \<^verbatim>\<open>
  $('mergeBtn').addEventListener('click', async () => {
    if (S.mergeFiles.length < 2) return;
    try {
      const merged = await PDFDocument.create();
      for (const f of S.mergeFiles) {
        const buf  = await f.arrayBuffer();
        const doc  = await PDFDocument.load(buf, { ignoreEncryption: true });
        const pgs  = await merged.copyPages(doc, doc.getPageIndices());
        pgs.forEach(p => merged.addPage(p));
      }
      dlBytes(await merged.save(), 'merged.pdf');
    } catch (e) { ... toast(`Merge failed: ${e.message}`, 'error'); }
  });
  \<close>
  The handler's result is the error or the bytes handed to \<^verbatim>\<open>dlBytes\<close>.
\<close>

fun mergeLoop :: "('b, 'c) codec \<Rightarrow> 'b list \<Rightarrow> 'c page list \<Rightarrow> error + 'c page list" where
  "mergeLoop cd [] merged = Inr merged"
| "mergeLoop cd (f # fs) merged =
     (case pdf_load cd f of
        None \<Rightarrow> Inl SourceUnreadable
      | Some doc \<Rightarrow>
          (case copyPages doc (getPageIndices doc) of
             None \<Rightarrow> Inl CodecCopyError
           | Some pgs \<Rightarrow> mergeLoop cd fs (merged @ pgs)))"

definition mergeBtn :: "('b, 'c) codec \<Rightarrow> 'b S \<Rightarrow> 'b S \<times> (error + 'b)" where
  "mergeBtn cd s =
     (if length (mergeFiles s) < 2 then (s, Inl InsufficientInputs)
      else
        (case mergeLoop cd (mergeFiles s) [] of
           Inl e \<Rightarrow> (s, Inl e)
         | Inr merged \<Rightarrow>
             (case pdf_save cd merged of
                None \<Rightarrow> (s, Inl CodecSaveError)
              | Some out \<Rightarrow> (s, Inr out))))"

text \<open>
  \<^verbatim>\<open>
  $('splitBtn').addEventListener('click', async () => {
    if (!S.rawBytes) return;
    const from = parseInt($('splitFrom').value, 10);
    const to   = parseInt($('splitTo').value,   10);
    if (!Number.isFinite(from) || !Number.isFinite(to) || from < 1 || to > S.totalPages || from > to) {
      toast('Invalid page range.', 'error'); return;
    }
    try {
      const src  = await PDFDocument.load(S.rawBytes, { ignoreEncryption: true });
      const dest = await PDFDocument.create();
      const idxs = Array.from({ length: to - from + 1 }, (_, i) => from - 1 + i);
      const pgs  = await dest.copyPages(src, idxs);
      pgs.forEach(p => dest.addPage(p));
      dlBytes(await dest.save(), `pages_${from}-${to}.pdf`);
    } catch (e) { ... toast(`Split failed: ${e.message}`, 'error'); }
  });
  \<close>
\<close>

definition splitRange :: "int \<Rightarrow> int \<Rightarrow> jsnum list" where
  "splitRange from to = map (\<lambda>i. Num (from - 1 + int i)) [0..<nat (to - from + 1)]"

definition splitAccepts :: "'b S \<Rightarrow> int option \<Rightarrow> int option \<Rightarrow> bool" where
  "splitAccepts s from to =
     (case (from, to) of
        (Some f, Some t) \<Rightarrow> \<not> (f < 1 \<or> t > int (totalPages s) \<or> f > t)
      | _ \<Rightarrow> False)"

definition splitBtn ::
  "('b, 'c) codec \<Rightarrow> int option \<Rightarrow> int option \<Rightarrow> 'b S \<Rightarrow> 'b S \<times> (error + 'b)" where
  "splitBtn cd from to s =
     (case rawBytes s of
        None \<Rightarrow> (s, Inl NoPdfLoaded)
      | Some bytes \<Rightarrow>
          if \<not> splitAccepts s from to then (s, Inl InvalidRange)
          else
            (case pdf_load cd bytes of
               None \<Rightarrow> (s, Inl SourceUnreadable)
             | Some src \<Rightarrow>
                 (case copyPages src (splitRange (the from) (the to)) of
                    None \<Rightarrow> (s, Inl CodecCopyError)
                  | Some pgs \<Rightarrow>
                      (case pdf_save cd pgs of
                         None \<Rightarrow> (s, Inl CodecSaveError)
                       | Some out \<Rightarrow> (s, Inr out)))))"

subsection \<open>The order table against the installed snapshot\<close>

text \<open>
  The page count of the installed snapshot, as \<^verbatim>\<open>ingestBytes\<close> and \<^verbatim>\<open>applyEdit\<close>
  read it: PDF.js's \<^verbatim>\<open>numPages\<close> of \<^verbatim>\<open>S.rawBytes\<close>.
\<close>

definition snapshotPages :: "('b, 'c) codec \<Rightarrow> 'b S \<Rightarrow> nat option" where
  "snapshotPages cd s = (case rawBytes s of None \<Rightarrow> None | Some bytes \<Rightarrow> pdfjs_numPages cd bytes)"

text \<open>
  The order table is a permutation of \<open>[0, pageCount)\<close>: no entry twice, and its
  entries are exactly \<open>0, \<dots>, pageCount - 1\<close>.
\<close>

definition orderIsPermutation :: "('b, 'c) codec \<Rightarrow> 'b S \<Rightarrow> bool" where
  "orderIsPermutation cd s =
     (case snapshotPages cd s of
        None \<Rightarrow> False
      | Some n \<Rightarrow> distinct (pageOrder s) \<and> set (pageOrder s) = set (identityOrder n))"

text \<open>
  The order table names pages of the snapshot, each at most once, and
  \<^verbatim>\<open>S.totalPages\<close> is its length.
\<close>

definition orderValid :: "('b, 'c) codec \<Rightarrow> 'b S \<Rightarrow> bool" where
  "orderValid cd s =
     (case snapshotPages cd s of
        None \<Rightarrow> False
      | Some n \<Rightarrow> distinct (pageOrder s) \<and> list_all (safeEntry n) (pageOrder s)
                  \<and> length (pageOrder s) = totalPages s)"

subsection \<open>A concrete codec and the initial state\<close>

text \<open>
  For running the model on concrete documents: a codec whose bytes are the page list
  itself, and the initial value of \<^verbatim>\<open>S\<close> in the script.
\<close>

definition listCodec :: "('c page list, 'c) codec" where
  "listCodec = \<lparr>pdf_load = Some, pdf_save = Some, pdfjs_numPages = (\<lambda>b. Some (length b))\<rparr>"

definition S_init :: "'b S" where
  "S_init = \<lparr>pdfJsDoc = None, rawBytes = None, pageOrder = [], pageRots = Map.empty,
             selectedPgs = {}, curPage = 1, totalPages = 0, mergeFiles = []\<rparr>"

definition mkPage :: "string \<Rightarrow> int option \<Rightarrow> string page" where
  "mkPage c r = \<lparr>content = c, rotation = r\<rparr>"

text \<open>Documents and states used to run the theorems below on concrete inputs.\<close>

definition docAB :: "string page list" where
  "docAB = [mkPage ''A'' None, mkPage ''B'' (Some 90)]"

definition stateBA :: "string page list S" where
  "stateBA = S_init\<lparr>pdfJsDoc := Some 2, rawBytes := Some docAB, totalPages := 2,
                     pageOrder := [Num 1, Num 0], pageRots := [Num 1 \<mapsto> 90]\<rparr>"

definition stateBad :: "string page list S" where
  "stateBad = S_init\<lparr>pdfJsDoc := Some 1, rawBytes := Some [mkPage ''p'' None], totalPages := 1,
                      pageOrder := [Num 5]\<rparr>"

definition docABCD :: "string page list" where
  "docABCD = [mkPage ''A'' None, mkPage ''B'' None, mkPage ''C'' None, mkPage ''D'' None]"

definition docABC :: "string page list" where
  "docABC = [mkPage ''A'' None, mkPage ''B'' None, mkPage ''C'' None]"

definition stateABC :: "string page list S" where
  "stateABC = fst (ingestBytes listCodec docABC True S_init)"

definition docA :: "string page list" where
  "docA = [mkPage ''A'' None]"

definition stateSel :: "string page list S" where
  "stateSel = S_init\<lparr>pdfJsDoc := Some 1, rawBytes := Some docA, totalPages := 1,
                      pageOrder := [Num 0], pageRots := [Num 0 \<mapsto> 90], selectedPgs := {0}\<rparr>"

definition drawBang :: "string \<Rightarrow> string option" where
  "drawBang c = Some (c @ ''!'')"

definition flakyCodec :: "(nat, string) codec" where
  "flakyCodec =
     \<lparr>pdf_load = (\<lambda>b. if b = 0 \<or> b = 1 then Some [mkPage ''A'' None] else None),
      pdf_save = (\<lambda>d. if d = [mkPage ''A'' None] then Some 1
                       else if d = [] then Some 7 else None),
      pdfjs_numPages = (\<lambda>b. Some 1)\<rparr>"

definition stateFlaky :: "nat S" where
  "stateFlaky = S_init\<lparr>pdfJsDoc := Some 1, rawBytes := Some 0, totalPages := 1,
                        pageOrder := [Num 0]\<rparr>"

definition docA12 :: "string page list" where
  "docA12 = [mkPage ''A1'' None, mkPage ''A2'' None]"

definition docB123 :: "string page list" where
  "docB123 = [mkPage ''B1'' None, mkPage ''B2'' (Some 90), mkPage ''B3'' None]"

definition stateMerge :: "string page list S" where
  "stateMerge = S_init\<lparr>mergeFiles := [docA12, docB123]\<rparr>"

definition stateEdited :: "string page list S" where
  "stateEdited = stateABC\<lparr>pageOrder := [Num 2, Num 0], pageRots := [Num 0 \<mapsto> 90],
                          selectedPgs := {1}, totalPages := 2\<rparr>"

definition state45 :: "string page list S" where
  "state45 = S_init\<lparr>pdfJsDoc := Some 1, rawBytes := Some [mkPage ''p'' (Some 45)],
                     totalPages := 1, pageOrder := [Num 0], pageRots := [Num 0 \<mapsto> 90]\<rparr>"

section \<open>Properties\<close>

subsection \<open>Arithmetic and codec lemmas\<close>

lemma js_rem_cong: "js_rem a 360 mod 360 = a mod 360"
  unfolding js_rem_def
  by (cases "a < 0") (simp_all add: mod_minus_eq sgn_if)

lemma js_rem_nonneg: "0 \<le> a \<Longrightarrow> js_rem a 360 = a mod 360"
  unfolding js_rem_def by (simp add: sgn_if)

lemma copyPages_Nil: "copyPages src [] = Some []"
  by (simp add: copyPages_def)

lemma copyPages_Cons:
  "copyPages src (e # es) =
     (case copyPage src e of
        None \<Rightarrow> None
      | Some p \<Rightarrow> map_option ((#) p) (copyPages src es))"
  by (simp add: copyPages_def split: option.splits)

lemma copyPages_valid:
  "\<forall>k\<in>set ks. k < length src \<Longrightarrow>
     copyPages src (map (\<lambda>k. Num (int k)) ks) = Some (map ((!) src) ks)"
  by (induction ks) (simp_all add: copyPages_Nil copyPages_Cons)

lemma copyPages_None_iff:
  "copyPages src es = None \<longleftrightarrow> (\<exists>e\<in>set es. \<not> safeEntry (length src) e)"
proof (induction es)
  case Nil
  show ?case by (simp add: copyPages_Nil)
next
  case (Cons e es)
  show ?case
  proof (cases e)
    case (Num i)
    then show ?thesis using Cons by (simp add: copyPages_Cons)
  next
    case Undefined
    then show ?thesis by (simp add: copyPages_Cons)
  qed
qed

lemma copyPages_identity: "copyPages doc (getPageIndices doc) = Some doc"
  unfolding getPageIndices_def identityOrder_def
  by (simp add: copyPages_valid map_nth)


lemma js_rem_90: "js_rem a 90 = 0 \<longleftrightarrow> 90 dvd a"
  unfolding js_rem_def by (auto simp: sgn_if mod_eq_0_iff_dvd)

lemma js_rem_360_dvd: "90 dvd js_rem a 360 \<longleftrightarrow> 90 dvd a"
proof -
  have "(90::int) dvd 360" by simp
  then have "90 dvd \<bar>a\<bar> mod 360 \<longleftrightarrow> 90 dvd \<bar>a\<bar>"
    by (rule dvd_mod_iff)
  then show ?thesis
    unfolding js_rem_def by (auto simp: sgn_if)
qed

lemma setRotation_js_rem:
  "setRotation (js_rem a 360) p
     = (if 90 dvd a then Some (p\<lparr>rotation := Some (js_rem a 360)\<rparr>) else None)"
  by (simp add: setRotation_def js_rem_90 js_rem_360_dvd)

lemma rebuildPage_accepts:
  assumes "extraOf rots e = 0 \<or> 90 dvd (getPageRotationAngle p + extraOf rots e)"
  shows "snd (rebuildPage rots e p)
           = Inr (if extraOf rots e = 0 then p
                  else p\<lparr>rotation := Some (js_rem (getPageRotationAngle p + extraOf rots e) 360)\<rparr>)"
  using assms by (auto simp: rebuildPage_def Let_def setRotation_js_rem)

lemma rebuildPage_rejects:
  assumes "extraOf rots e \<noteq> 0" and "\<not> 90 dvd (getPageRotationAngle p + extraOf rots e)"
  shows "snd (rebuildPage rots e p) = Inl CodecRotationError"
  using assms by (simp add: rebuildPage_def Let_def setRotation_js_rem)

lemma rebuildPage_no_Save: "Save \<notin> set (fst (rebuildPage rots e p))"
  by (simp add: rebuildPage_def Let_def split: option.splits)

lemma rebuildPage_no_extra:
  "extraOf rots e = 0 \<Longrightarrow> rebuildPage rots e p = ([AddPage], Inr p)"
  by (simp add: rebuildPage_def)

lemma forEachPage_accepts:
  "\<forall>(e, p)\<in>set xs. snd (f e p) = Inr (g e p) \<Longrightarrow>
     snd (forEachPage f xs) = Inr (map (\<lambda>(e, p). g e p) xs)"
proof (induction xs)
  case Nil
  show ?case by simp
next
  case (Cons x xs)
  obtain e p where x: "x = (e, p)" by (cases x)
  from Cons.prems have h: "snd (f e p) = Inr (g e p)"
    and t: "\<forall>(e, p)\<in>set xs. snd (f e p) = Inr (g e p)"
    by (auto simp: x)
  show ?case
    using Cons.IH[OF t] h
    by (cases "f e p"; cases "forEachPage f xs") (simp add: x)
qed

lemma forEachPage_rejects:
  assumes "\<forall>(e, p)\<in>set xs. (\<exists>q. snd (f e p) = Inr q) \<or> snd (f e p) = Inl err"
    and "\<exists>(e, p)\<in>set xs. snd (f e p) = Inl err"
  shows "snd (forEachPage f xs) = Inl err"
  using assms
proof (induction xs)
  case Nil
  then show ?case by simp
next
  case (Cons x xs)
  obtain e p where x: "x = (e, p)" by (cases x)
  show ?case
  proof (cases "snd (f e p)")
    case (Inl a)
    with Cons.prems(1) have "a = err" by (auto simp: x)
    then show ?thesis using Inl by (cases "f e p") (simp add: x)
  next
    case (Inr q)
    with Cons.prems(2) have ex: "\<exists>(e, p)\<in>set xs. snd (f e p) = Inl err"
      by (auto simp: x)
    from Cons.prems(1) have al: "\<forall>(e, p)\<in>set xs. (\<exists>q. snd (f e p) = Inr q) \<or> snd (f e p) = Inl err"
      by (auto simp: x)
    show ?thesis
      using Cons.IH[OF al ex] Inr
      by (cases "f e p"; cases "forEachPage f xs") (simp add: x)
  qed
qed

lemma forEachPage_no_Save:
  assumes "\<And>e p. Save \<notin> set (fst (f e p))"
  shows "Save \<notin> set (fst (forEachPage f xs))"
proof (induction xs)
  case Nil
  show ?case by simp
next
  case (Cons x xs)
  obtain e p where x: "x = (e, p)" by (cases x)
  show ?case
    using Cons.IH assms[of e p]
    by (cases "f e p"; cases "forEachPage f xs"; cases "snd (f e p)"; cases "snd (forEachPage f xs)")
       (auto simp: x)
qed

subsection \<open>Rebuild\<close>

lemma rebuild_after_copy:
  assumes "rawBytes s = Some bytes" and "pdf_load cd bytes = Some src"
    and "pageOrder s = map (\<lambda>k. Num (int k)) ks" and "\<forall>k\<in>set ks. k < length src"
  shows "rebuild cd s =
           (case forEachPage (rebuildPage (pageRots s))
                   (map (\<lambda>k. (Num (int k), src ! k)) ks) of
              (calls, Inl e) \<Rightarrow> ([Load, Create, CopyPages (pageOrder s)] @ calls, Inl e)
            | (calls, Inr dest) \<Rightarrow>
                ([Load, Create, CopyPages (pageOrder s)] @ calls @ [Save],
                 case pdf_save cd dest of None \<Rightarrow> Inl CodecSaveError | Some out \<Rightarrow> Inr out))"
proof -
  have cp: "copyPages src (pageOrder s) = Some (map ((!) src) ks)"
    using assms(3,4) by (simp add: copyPages_valid)
  have z: "zip (pageOrder s) (map ((!) src) ks) = map (\<lambda>k. (Num (int k), src ! k)) ks"
    by (simp add: assms(3) zip_map_map zip_same_conv_map)
  show ?thesis
    unfolding rebuild_def using assms(1,2) cp z by (simp split: prod.split sum.split)
qed

lemma rebuild_valid:
  assumes "rawBytes s = Some bytes" and "pdf_load cd bytes = Some src"
    and "pageOrder s = map (\<lambda>k. Num (int k)) ks" and "\<forall>k\<in>set ks. k < length src"
    and "\<forall>k\<in>set ks. extraOf (pageRots s) (Num (int k)) = 0
           \<or> 90 dvd (getPageRotationAngle (src ! k) + extraOf (pageRots s) (Num (int k)))"
  shows "snd (rebuild cd s) =
           (case pdf_save cd
                   (map (\<lambda>k. if extraOf (pageRots s) (Num (int k)) = 0 then src ! k
                             else (src ! k)\<lparr>rotation :=
                                    Some (js_rem (getPageRotationAngle (src ! k)
                                                   + extraOf (pageRots s) (Num (int k))) 360)\<rparr>)
                        ks) of
              None \<Rightarrow> Inl CodecSaveError
            | Some out \<Rightarrow> Inr out)"
proof -
  let ?g = "\<lambda>e p. if extraOf (pageRots s) e = 0 then p
                   else p\<lparr>rotation := Some (js_rem (getPageRotationAngle p + extraOf (pageRots s) e) 360)\<rparr>"
  let ?xs = "map (\<lambda>k. (Num (int k), src ! k)) ks"
  have "snd (rebuildPage (pageRots s) (Num (int k)) (src ! k)) = Inr (?g (Num (int k)) (src ! k))"
    if "k \<in> set ks" for k
    using that assms(5) by (intro rebuildPage_accepts) blast
  then have "\<forall>(e, p)\<in>set ?xs. snd (rebuildPage (pageRots s) e p) = Inr (?g e p)"
    by auto
  then have "snd (forEachPage (rebuildPage (pageRots s)) ?xs) = Inr (map (\<lambda>(e, p). ?g e p) ?xs)"
    by (rule forEachPage_accepts)
  then have f: "snd (forEachPage (rebuildPage (pageRots s)) ?xs)
                  = Inr (map (\<lambda>k. ?g (Num (int k)) (src ! k)) ks)"
    by (simp add: comp_def)
  show ?thesis
    unfolding rebuild_after_copy[OF assms(1-4)] using f
    by (cases "forEachPage (rebuildPage (pageRots s)) ?xs") simp
qed

lemma rebuild_rotation_rejected:
  assumes "rawBytes s = Some bytes" and "pdf_load cd bytes = Some src"
    and "pageOrder s = map (\<lambda>k. Num (int k)) ks" and "\<forall>k\<in>set ks. k < length src"
    and "\<exists>k\<in>set ks. extraOf (pageRots s) (Num (int k)) \<noteq> 0
           \<and> \<not> 90 dvd (getPageRotationAngle (src ! k) + extraOf (pageRots s) (Num (int k)))"
  shows "snd (rebuild cd s) = Inl CodecRotationError \<and> Save \<notin> set (fst (rebuild cd s))"
proof -
  let ?xs = "map (\<lambda>k. (Num (int k), src ! k)) ks"
  have al: "\<forall>(e, p)\<in>set ?xs. (\<exists>q. snd (rebuildPage (pageRots s) e p) = Inr q)
               \<or> snd (rebuildPage (pageRots s) e p) = Inl CodecRotationError"
  proof (clarify)
    fix e p assume "(e, p) \<in> set ?xs"
      and "snd (rebuildPage (pageRots s) e p) \<noteq> Inl CodecRotationError"
    then show "\<exists>q. snd (rebuildPage (pageRots s) e p) = Inr q"
      using rebuildPage_accepts[of "pageRots s" e p] rebuildPage_rejects[of "pageRots s" e p]
      by blast
  qed
  have ex: "\<exists>(e, p)\<in>set ?xs. snd (rebuildPage (pageRots s) e p) = Inl CodecRotationError"
    using assms(5) by (auto intro!: rebuildPage_rejects)
  have f: "snd (forEachPage (rebuildPage (pageRots s)) ?xs) = Inl CodecRotationError"
    by (rule forEachPage_rejects[OF al ex])
  have n: "Save \<notin> set (fst (forEachPage (rebuildPage (pageRots s)) ?xs))"
    by (rule forEachPage_no_Save) (rule rebuildPage_no_Save)
  show ?thesis
    unfolding rebuild_after_copy[OF assms(1-4)] using f n
    by (cases "forEachPage (rebuildPage (pageRots s)) ?xs") auto
qed

text \<open>
  Claim C1, as the code has it. Take a loaded snapshot and an order table of valid original
  indices. When, for every listed page with a non-zero delta, the page's rotation plus the
  delta is a multiple of 90 (as it is for the rotations of the PDF format and the deltas
  \<^verbatim>\<open>rotateSel\<close> writes), \<^verbatim>\<open>rebuild\<close> hands to the codec's \<^verbatim>\<open>save\<close> a destination
  with one page per table entry; page \<open>k\<close> has the content of source page \<open>order[k]\<close>.
  Its rotation is congruent modulo 360 to the source page's rotation plus the ledger's
  delta (an absent delta and an absent rotation read as 0): it is the source page's own
  rotation, untouched, when the delta is 0, and JavaScript's \<^verbatim>\<open>(cur + extra) % 360\<close>
  otherwise. It equals \<open>(intrinsic + delta) mod 360\<close> whenever the source page's rotation
  lies in \<open>[0, 360)\<close> and the delta is not negative. The only failure left is the
  codec's \<^verbatim>\<open>save\<close>. When some listed page has a non-zero delta and its rotation plus the
  delta is not a multiple of 90, \<^verbatim>\<open>setRotation\<close> throws and \<^verbatim>\<open>rebuild\<close> fails
  without calling \<^verbatim>\<open>save\<close>.
\<close>

theorem rebuild_output:
  assumes "rawBytes s = Some bytes" and "pdf_load cd bytes = Some src"
    and "pageOrder s = map (\<lambda>k. Num (int k)) ks" and "\<forall>k\<in>set ks. k < length src"
  shows "((\<forall>k\<in>set ks. extraOf (pageRots s) (Num (int k)) = 0
             \<or> 90 dvd (getPageRotationAngle (src ! k) + extraOf (pageRots s) (Num (int k))))
          \<longrightarrow> (\<exists>dest.
           snd (rebuild cd s) =
             (case pdf_save cd dest of None \<Rightarrow> Inl CodecSaveError | Some out \<Rightarrow> Inr out)
           \<and> length dest = length (pageOrder s)
           \<and> (\<forall>k < length ks.
                 content (dest ! k) = content (src ! (ks ! k))
                 \<and> getPageRotationAngle (dest ! k) mod 360
                     = (getPageRotationAngle (src ! (ks ! k))
                          + extraOf (pageRots s) (pageOrder s ! k)) mod 360
                 \<and> getPageRotationAngle (dest ! k)
                     = (if extraOf (pageRots s) (pageOrder s ! k) = 0
                        then getPageRotationAngle (src ! (ks ! k))
                        else js_rem (getPageRotationAngle (src ! (ks ! k))
                                      + extraOf (pageRots s) (pageOrder s ! k)) 360)
                 \<and> (0 \<le> getPageRotationAngle (src ! (ks ! k))
                      \<and> getPageRotationAngle (src ! (ks ! k)) < 360
                      \<and> 0 \<le> extraOf (pageRots s) (pageOrder s ! k)
                    \<longrightarrow> getPageRotationAngle (dest ! k)
                          = (getPageRotationAngle (src ! (ks ! k))
                               + extraOf (pageRots s) (pageOrder s ! k)) mod 360))))
         \<and> ((\<exists>k\<in>set ks. extraOf (pageRots s) (Num (int k)) \<noteq> 0
                \<and> \<not> 90 dvd (getPageRotationAngle (src ! k) + extraOf (pageRots s) (Num (int k))))
             \<longrightarrow> snd (rebuild cd s) = Inl CodecRotationError
                 \<and> Save \<notin> set (fst (rebuild cd s)))"
proof (intro conjI impI)
  assume ok: "\<forall>k\<in>set ks. extraOf (pageRots s) (Num (int k)) = 0
             \<or> 90 dvd (getPageRotationAngle (src ! k) + extraOf (pageRots s) (Num (int k)))"
  let ?g = "\<lambda>k. if extraOf (pageRots s) (Num (int k)) = 0 then src ! k
                 else (src ! k)\<lparr>rotation :=
                        Some (js_rem (getPageRotationAngle (src ! k)
                                       + extraOf (pageRots s) (Num (int k))) 360)\<rparr>"
  let ?dest = "map ?g ks"
  have out: "snd (rebuild cd s) =
      (case pdf_save cd ?dest of None \<Rightarrow> Inl CodecSaveError | Some out \<Rightarrow> Inr out)"
    by (rule rebuild_valid[OF assms ok])
  have len: "length ?dest = length (pageOrder s)"
    by (simp add: assms(3))
  have pages: "content (?dest ! k) = content (src ! (ks ! k))
      \<and> getPageRotationAngle (?dest ! k) mod 360
           = (getPageRotationAngle (src ! (ks ! k)) + extraOf (pageRots s) (pageOrder s ! k)) mod 360
      \<and> getPageRotationAngle (?dest ! k)
           = (if extraOf (pageRots s) (pageOrder s ! k) = 0
              then getPageRotationAngle (src ! (ks ! k))
              else js_rem (getPageRotationAngle (src ! (ks ! k))
                            + extraOf (pageRots s) (pageOrder s ! k)) 360)
      \<and> (0 \<le> getPageRotationAngle (src ! (ks ! k))
            \<and> getPageRotationAngle (src ! (ks ! k)) < 360
            \<and> 0 \<le> extraOf (pageRots s) (pageOrder s ! k)
          \<longrightarrow> getPageRotationAngle (?dest ! k)
                = (getPageRotationAngle (src ! (ks ! k))
                     + extraOf (pageRots s) (pageOrder s ! k)) mod 360)"
    if "k < length ks" for k
  proof -
    have e: "pageOrder s ! k = Num (int (ks ! k))"
      using that by (simp add: assms(3))
    have d: "?dest ! k = ?g (ks ! k)"
      using that by simp
    have r: "getPageRotationAngle (?g (ks ! k))
               = (if extraOf (pageRots s) (Num (int (ks ! k))) = 0
                  then getPageRotationAngle (src ! (ks ! k))
                  else js_rem (getPageRotationAngle (src ! (ks ! k))
                                + extraOf (pageRots s) (Num (int (ks ! k)))) 360)"
      by (simp add: getPageRotationAngle_def)
    have c: "content (?g (ks ! k)) = content (src ! (ks ! k))"
      by simp
    show ?thesis
      unfolding d e r c by (simp add: js_rem_cong js_rem_nonneg)
  qed
  show "\<exists>dest.
           snd (rebuild cd s) =
             (case pdf_save cd dest of None \<Rightarrow> Inl CodecSaveError | Some out \<Rightarrow> Inr out)
           \<and> length dest = length (pageOrder s)
           \<and> (\<forall>k < length ks.
                 content (dest ! k) = content (src ! (ks ! k))
                 \<and> getPageRotationAngle (dest ! k) mod 360
                     = (getPageRotationAngle (src ! (ks ! k))
                          + extraOf (pageRots s) (pageOrder s ! k)) mod 360
                 \<and> getPageRotationAngle (dest ! k)
                     = (if extraOf (pageRots s) (pageOrder s ! k) = 0
                        then getPageRotationAngle (src ! (ks ! k))
                        else js_rem (getPageRotationAngle (src ! (ks ! k))
                                      + extraOf (pageRots s) (pageOrder s ! k)) 360)
                 \<and> (0 \<le> getPageRotationAngle (src ! (ks ! k))
                      \<and> getPageRotationAngle (src ! (ks ! k)) < 360
                      \<and> 0 \<le> extraOf (pageRots s) (pageOrder s ! k)
                    \<longrightarrow> getPageRotationAngle (dest ! k)
                          = (getPageRotationAngle (src ! (ks ! k))
                               + extraOf (pageRots s) (pageOrder s ! k)) mod 360))"
    using out len pages by blast
next
  assume bad: "\<exists>k\<in>set ks. extraOf (pageRots s) (Num (int k)) \<noteq> 0
                \<and> \<not> 90 dvd (getPageRotationAngle (src ! k) + extraOf (pageRots s) (Num (int k)))"
  from rebuild_rotation_rejected[OF assms bad]
  show "snd (rebuild cd s) = Inl CodecRotationError" and "Save \<notin> set (fst (rebuild cd s))"
    by simp_all
qed

lemma rebuild_stateBA:
  "rebuild listCodec stateBA
     = ([Load, Create, CopyPages [Num 1, Num 0], GetRotation, SetRotation 180, AddPage, AddPage,
         Save],
        Inr [mkPage ''B'' (Some 180), mkPage ''A'' None])"
  by (simp add: rebuild_def stateBA_def S_init_def listCodec_def docAB_def copyPages_def
      rebuildPage_def setRotation_def extraOf_def getPageRotationAngle_def js_rem_def mkPage_def)

lemma rebuild_state45:
  "rebuild listCodec state45
     = ([Load, Create, CopyPages [Num 0], GetRotation, SetRotation 135], Inl CodecRotationError)"
  by (simp add: rebuild_def state45_def S_init_def listCodec_def copyPages_def
      rebuildPage_def setRotation_def extraOf_def getPageRotationAngle_def js_rem_def mkPage_def)

theorem rebuild_output_witness:
  "rawBytes stateBA = Some docAB \<and> pdf_load listCodec docAB = Some docAB
   \<and> pageOrder stateBA = map (\<lambda>k. Num (int k)) [1, 0]
   \<and> (1::nat) < length docAB \<and> (0::nat) < length docAB
   \<and> snd (rebuild listCodec stateBA) = Inr [mkPage ''B'' (Some 180), mkPage ''A'' None]
   \<and> (\<exists>dest. snd (rebuild listCodec stateBA) = Inr dest \<and> length dest = 2
         \<and> content (dest ! 0) = ''B'' \<and> getPageRotationAngle (dest ! 0) = (90 + 90) mod 360
         \<and> content (dest ! 1) = ''A'' \<and> getPageRotationAngle (dest ! 1) = (0 + 0) mod 360)
   \<and> rawBytes state45 = Some [mkPage ''p'' (Some 45)]
   \<and> pageOrder state45 = map (\<lambda>k. Num (int k)) [0]
   \<and> extraOf (pageRots state45) (Num 0) = 90
   \<and> snd (rebuild listCodec state45) = Inl CodecRotationError
   \<and> Save \<notin> set (fst (rebuild listCodec state45))"
proof -
  have h1: "rawBytes stateBA = Some docAB"
    by (simp add: stateBA_def)
  have h2: "pdf_load listCodec docAB = Some docAB"
    by (simp add: listCodec_def)
  have h3: "pageOrder stateBA = map (\<lambda>k. Num (int k)) [1, 0]"
    by (simp add: stateBA_def)
  have h4: "\<forall>k\<in>set [1, 0]. k < length docAB"
    by (simp add: docAB_def)
  have h5: "\<forall>k\<in>set [1, 0]. extraOf (pageRots stateBA) (Num (int k)) = 0
              \<or> 90 dvd (getPageRotationAngle (docAB ! k) + extraOf (pageRots stateBA) (Num (int k)))"
    by (simp add: stateBA_def docAB_def extraOf_def getPageRotationAngle_def mkPage_def)
  have ev: "snd (rebuild listCodec stateBA) = Inr [mkPage ''B'' (Some 180), mkPage ''A'' None]"
    by (simp add: rebuild_stateBA)
  from rebuild_output[OF h1 h2 h3 h4] h5 obtain dest where
    d: "snd (rebuild listCodec stateBA) =
          (case pdf_save listCodec dest of None \<Rightarrow> Inl CodecSaveError | Some out \<Rightarrow> Inr out)"
      and l: "length dest = length (pageOrder stateBA)"
    by blast
  have dest: "dest = [mkPage ''B'' (Some 180), mkPage ''A'' None]"
    using d ev by (simp add: listCodec_def)
  have a: "\<exists>dest. snd (rebuild listCodec stateBA) = Inr dest \<and> length dest = 2
         \<and> content (dest ! 0) = ''B'' \<and> getPageRotationAngle (dest ! 0) = (90 + 90) mod 360
         \<and> content (dest ! 1) = ''A'' \<and> getPageRotationAngle (dest ! 1) = (0 + 0) mod 360"
    using ev by (simp add: mkPage_def getPageRotationAngle_def)
  have g1: "rawBytes state45 = Some [mkPage ''p'' (Some 45)]"
    by (simp add: state45_def)
  have g2: "pdf_load listCodec [mkPage ''p'' (Some 45)] = Some [mkPage ''p'' (Some 45)]"
    by (simp add: listCodec_def)
  have g3: "pageOrder state45 = map (\<lambda>k. Num (int k)) [0]"
    by (simp add: state45_def)
  have g4: "\<forall>k\<in>set [0]. k < length [mkPage ''p'' (Some 45)]"
    by simp
  have g5: "extraOf (pageRots state45) (Num 0) = 90"
    by (simp add: state45_def extraOf_def)
  have g6: "\<exists>k\<in>set [0]. extraOf (pageRots state45) (Num (int k)) \<noteq> 0
              \<and> \<not> 90 dvd (getPageRotationAngle ([mkPage ''p'' (Some 45)] ! k)
                             + extraOf (pageRots state45) (Num (int k)))"
    by (simp add: g5 getPageRotationAngle_def mkPage_def)
  have b: "snd (rebuild listCodec state45) = Inl CodecRotationError
           \<and> Save \<notin> set (fst (rebuild listCodec state45))"
    using rebuild_output[OF g1 g2 g3 g4] g6 by blast
  show ?thesis
    using h1 h2 h3 ev a g1 g3 g5 b by (simp add: docAB_def)
qed

text \<open>
  The claim's formula fails where the delta is 0 and the source page's rotation is outside
  \<open>[0, 360)\<close>: a page with \<^verbatim>\<open>/Rotate 450\<close> and no ledger entry keeps the rotation 450,
  and \<open>(450 + 0) mod 360 = 90\<close>.
\<close>

theorem rebuild_rotation_counterexample:
  "snd (rebuild listCodec (fst (ingestBytes listCodec [mkPage ''p'' (Some 450)] True S_init)))
     = Inr [mkPage ''p'' (Some 450)]
   \<and> getPageRotationAngle (mkPage ''p'' (Some 450))
       \<noteq> (getPageRotationAngle (mkPage ''p'' (Some 450)) + extraOf Map.empty (Num 0)) mod 360"
  by (simp add: rebuild_def ingestBytes_def S_init_def listCodec_def copyPages_def identityOrder_def
      rebuildPage_def extraOf_def getPageRotationAngle_def mkPage_def)

text \<open>
  Claim C4 does not hold of \<^verbatim>\<open>src/script.js\<close>, whose \<^verbatim>\<open>rebuild\<close> has no check of the
  order table. When the snapshot loads and the table holds an entry that is not an integer
  in \<open>[0, pageCount)\<close>, it has called \<^verbatim>\<open>load\<close>, \<^verbatim>\<open>create\<close> and \<^verbatim>\<open>copyPages\<close>
  before it fails, and the failure is the codec's rejection of the table, not the
  corruption error.
\<close>

theorem rebuild_invalid_order:
  assumes "rawBytes s = Some bytes" and "pdf_load cd bytes = Some src"
    and "\<exists>e\<in>set (pageOrder s). \<not> safeEntry (length src) e"
  shows "rebuild cd s = ([Load, Create, CopyPages (pageOrder s)], Inl CodecCopyError)"
proof -
  have "copyPages src (pageOrder s) = None"
    using assms(3) by (simp add: copyPages_None_iff)
  then show ?thesis
    unfolding rebuild_def using assms(1,2) by simp
qed

theorem rebuild_invalid_order_witness:
  "rawBytes stateBad = Some [mkPage ''p'' None]
   \<and> pdf_load listCodec [mkPage ''p'' None] = Some [mkPage ''p'' None]
   \<and> Num 5 \<in> set (pageOrder stateBad) \<and> \<not> safeEntry (length [mkPage ''p'' None]) (Num 5)
   \<and> rebuild listCodec stateBad = ([Load, Create, CopyPages [Num 5]], Inl CodecCopyError)"
proof -
  have h1: "rawBytes stateBad = Some [mkPage ''p'' None]"
    by (simp add: stateBad_def)
  have h2: "pdf_load listCodec [mkPage ''p'' None] = Some [mkPage ''p'' None]"
    by (simp add: listCodec_def)
  have h3: "\<exists>e\<in>set (pageOrder stateBad). \<not> safeEntry (length [mkPage ''p'' None]) e"
    by (simp add: stateBad_def)
  show ?thesis
    using rebuild_invalid_order[OF h1 h2 h3] h1 h2 by (simp add: stateBad_def)
qed

text \<open>
  The other two revisions. \<^verbatim>\<open>src/unnamed/part_001\<close> does what the claim says: a table
  with a bad entry is reported as corrupted before any codec call. The check of
  \<^verbatim>\<open>src/unnamed/part_000\<close> is never reached.
\<close>

lemma rebuild_part_001_invalid_order:
  assumes "rawBytes1 s \<noteq> None" and "\<exists>e\<in>set (pageOrder1 s). \<not> safeEntry (pageCount s) e"
  shows "rebuild_part_001 cd s = ([], Inl StateCorruption)"
proof -
  from assms(2) obtain e where "e \<in> set (pageOrder1 s)" and "\<not> safeEntry (pageCount s) e"
    by blast
  then have "length (filter (safeEntry (pageCount s)) (pageOrder1 s)) < length (pageOrder1 s)"
    by (rule length_filter_less)
  then show ?thesis
    unfolding rebuild_part_001_def using assms(1) by (auto simp: Let_def)
qed

lemma rebuild_v4_throws: "rawBytes s \<noteq> None \<Longrightarrow> rebuild_v4 s = ([], Inl ReferenceError)"
  by (auto simp: rebuild_v4_def)

subsection \<open>Round trip\<close>

lemma extraOf_empty: "extraOf Map.empty e = 0"
  by (simp add: extraOf_def)

lemma forEachPage_no_rots:
  "length es = length ps \<Longrightarrow>
     forEachPage (rebuildPage Map.empty) (zip es ps) = (replicate (length ps) AddPage, Inr ps)"
  by (induction es ps rule: list_induct2) (simp_all add: rebuildPage_no_extra extraOf_empty)

text \<open>
  Claim C6, as the code has it. When PDF.js and pdf-lib agree on the page count of the
  input, \<^verbatim>\<open>ingestBytes(bytes, true)\<close> followed by \<^verbatim>\<open>rebuild()\<close> copies every page
  in its original order, sets no rotation, and serialises exactly the pages it loaded: the
  output has the input's page count, contents and rotations.
\<close>

theorem ingest_rebuild_roundtrip:
  assumes "pdfjs_numPages cd bytes = Some (length src)" and "pdf_load cd bytes = Some src"
  shows "rebuild cd (fst (ingestBytes cd bytes True s))
           = ([Load, Create, CopyPages (identityOrder (length src))]
                @ replicate (length src) AddPage @ [Save],
              case pdf_save cd src of None \<Rightarrow> Inl CodecSaveError | Some out \<Rightarrow> Inr out)"
proof -
  let ?s = "fst (ingestBytes cd bytes True s)"
  have st: "rawBytes ?s = Some bytes" "pageOrder ?s = identityOrder (length src)"
    "pageRots ?s = Map.empty"
    using assms(1) by (simp_all add: ingestBytes_def Let_def)
  have cp: "copyPages src (identityOrder (length src)) = Some src"
    using copyPages_identity[of src] by (simp add: getPageIndices_def)
  have len: "length (identityOrder (length src)) = length src"
    by (simp add: identityOrder_def)
  show ?thesis
    unfolding rebuild_def st using assms(2) cp
    by (simp add: forEachPage_no_rots[OF len])
qed

theorem ingest_rebuild_roundtrip_witness:
  "pdfjs_numPages listCodec docAB = Some (length docAB) \<and> pdf_load listCodec docAB = Some docAB
   \<and> snd (rebuild listCodec (fst (ingestBytes listCodec docAB True S_init))) = Inr docAB"
proof -
  have h1: "pdfjs_numPages listCodec docAB = Some (length docAB)"
    by (simp add: listCodec_def)
  have h2: "pdf_load listCodec docAB = Some docAB"
    by (simp add: listCodec_def)
  show ?thesis
    using ingest_rebuild_roundtrip[OF h1 h2, of S_init] h1 h2 by (simp add: listCodec_def)
qed

text \<open>
  The output's rotations are the input's, not 0: the second page of the input below has
  \<^verbatim>\<open>/Rotate 90\<close>, and so has the second page of the output.
\<close>

theorem roundtrip_rotation_counterexample:
  "snd (rebuild listCodec (fst (ingestBytes listCodec docAB True S_init))) = Inr docAB
   \<and> getPageRotationAngle (docAB ! 1) \<noteq> 0"
  by (simp add: rebuild_def ingestBytes_def S_init_def listCodec_def copyPages_def identityOrder_def
      rebuildPage_def extraOf_def getPageRotationAngle_def mkPage_def docAB_def)

subsection \<open>Delete\<close>

lemma nths_spliceOut:
  "\<forall>e\<in>A. e < d \<Longrightarrow> nths (spliceOut d xs) (- A) = nths xs (- insert d A)"
proof (induction xs arbitrary: d A)
  case Nil
  show ?case by (simp add: spliceOut_def)
next
  case (Cons x xs)
  show ?case
  proof (cases d)
    case 0
    with Cons.prems have "A = {}" by auto
    then show ?thesis using 0 by (simp add: spliceOut_def nths_Cons nths_all)
  next
    case (Suc d')
    let ?A' = "{j. Suc j \<in> A}"
    have small: "\<forall>e\<in>?A'. e < d'"
      using Cons.prems Suc by auto
    have s1: "{j. Suc j \<in> - A} = - ?A'" by auto
    have s2: "{j. Suc j \<in> - insert (Suc d') A} = - insert d' ?A'" by auto
    have h: "(0 \<in> - A) = (0 \<in> - insert (Suc d') A)" by simp
    have "nths (spliceOut (Suc d') (x # xs)) (- A) = nths (x # spliceOut d' xs) (- A)"
      by (simp add: spliceOut_def)
    also have "\<dots> = (if 0 \<in> - A then [x] else []) @ nths (spliceOut d' xs) {j. Suc j \<in> - A}"
      by (rule nths_Cons)
    also have "\<dots> = (if 0 \<in> - A then [x] else []) @ nths xs (- insert d' ?A')"
      by (simp only: s1 Cons.IH[OF small])
    also have "\<dots> = (if 0 \<in> - insert (Suc d') A then [x] else [])
                      @ nths xs {j. Suc j \<in> - insert (Suc d') A}"
      by (simp only: s2 h)
    also have "\<dots> = nths (x # xs) (- insert (Suc d') A)"
      by (rule nths_Cons[symmetric])
    finally show ?thesis using Suc by simp
  qed
qed

lemma fold_spliceOut_nths:
  "sorted_wrt (>) ds \<Longrightarrow> fold spliceOut ds xs = nths xs (- set ds)"
proof (induction ds arbitrary: xs)
  case Nil
  show ?case by (simp add: nths_all)
next
  case (Cons d ds)
  then have "fold spliceOut (d # ds) xs = nths (spliceOut d xs) (- set ds)"
    by simp
  also have "\<dots> = nths xs (- insert d (set ds))"
    using Cons.prems by (intro nths_spliceOut) auto
  finally show ?case by simp
qed

lemma descending_selection:
  "finite A \<Longrightarrow> sorted_wrt (>) (rev (sorted_list_of_set A))
     \<and> set (rev (sorted_list_of_set A)) = A"
  using strict_sorted_list_of_set[of A]
  by (simp add: sorted_wrt_rev)


lemma delete_order:
  assumes "finite (selectedPgs s)"
  shows "fold spliceOut (rev (sorted_list_of_set (selectedPgs s))) (pageOrder s)
           = nths (pageOrder s) (- selectedPgs s)"
  using descending_selection[OF assms] fold_spliceOut_nths by metis

text \<open>
  Claim C8, as the code has it. A non-empty selection at least as large as the order table
  is rejected with \<^verbatim>\<open>'Cannot delete all pages.'\<close> and nothing changes. A non-empty
  selection smaller than the table, once the user confirms the dialog, removes exactly the
  selected positions (the entries at the other positions stay, in their order) and clears
  the selection; when the user cancels, nothing changes. An empty selection returns at
  the first guard, whatever the table's length.
\<close>

theorem delete_guard:
  assumes "finite (selectedPgs s)"
  shows "(selectedPgs s \<noteq> {} \<and> length (pageOrder s) \<le> card (selectedPgs s)
            \<longrightarrow> deleteSelectedBtn confirmed s = (s, Inl CannotDeleteAll))
         \<and> (selectedPgs s \<noteq> {} \<and> card (selectedPgs s) < length (pageOrder s)
            \<longrightarrow> snd (deleteSelectedBtn True s) = Inr ()
                \<and> pageOrder (fst (deleteSelectedBtn True s))
                    = nths (pageOrder s) (- selectedPgs s)
                \<and> selectedPgs (fst (deleteSelectedBtn True s)) = {}
                \<and> deleteSelectedBtn False s = (s, Inl Cancelled))
         \<and> (selectedPgs s = {} \<longrightarrow> deleteSelectedBtn confirmed s = (s, Inl EmptySelection))"
proof -
  have ne: "card (selectedPgs s) \<noteq> 0" if "selectedPgs s \<noteq> {}"
    using that assms by simp
  have a: "deleteSelectedBtn confirmed s = (s, Inl CannotDeleteAll)"
    if "selectedPgs s \<noteq> {}" and "length (pageOrder s) \<le> card (selectedPgs s)"
    using that ne by (simp add: deleteSelectedBtn_def)
  have b: "snd (deleteSelectedBtn True s) = Inr ()
          \<and> pageOrder (fst (deleteSelectedBtn True s)) = nths (pageOrder s) (- selectedPgs s)
          \<and> selectedPgs (fst (deleteSelectedBtn True s)) = {}
          \<and> deleteSelectedBtn False s = (s, Inl Cancelled)"
    if "selectedPgs s \<noteq> {}" and "card (selectedPgs s) < length (pageOrder s)"
    using that ne delete_order[OF assms]
    by (simp add: deleteSelectedBtn_def Let_def previewMain_def split: option.splits)
  have c: "deleteSelectedBtn confirmed s = (s, Inl EmptySelection)" if "selectedPgs s = {}"
    using that by (simp add: deleteSelectedBtn_def)
  show ?thesis using a b c by blast
qed




theorem delete_guard_witness:
  "finite (selectedPgs (selectAllBtn stateBA)) \<and> selectedPgs (selectAllBtn stateBA) \<noteq> {}
   \<and> length (pageOrder (selectAllBtn stateBA)) \<le> card (selectedPgs (selectAllBtn stateBA))
   \<and> deleteSelectedBtn True (selectAllBtn stateBA) = (selectAllBtn stateBA, Inl CannotDeleteAll)
   \<and> finite (selectedPgs (thumbClick 0 stateBA)) \<and> selectedPgs (thumbClick 0 stateBA) \<noteq> {}
   \<and> card (selectedPgs (thumbClick 0 stateBA)) < length (pageOrder (thumbClick 0 stateBA))
   \<and> pageOrder (fst (deleteSelectedBtn True (thumbClick 0 stateBA))) = [Num 0]"
proof -
  have a: "selectedPgs (selectAllBtn stateBA) = {0, 1}" "pageOrder (selectAllBtn stateBA) = [Num 1, Num 0]"
    by (auto simp add: selectAllBtn_def stateBA_def S_init_def)
  have b: "selectedPgs (thumbClick 0 stateBA) = {0}" "pageOrder (thumbClick 0 stateBA) = [Num 1, Num 0]"
    by (simp_all add: thumbClick_def stateBA_def S_init_def)
  have fa: "finite (selectedPgs (selectAllBtn stateBA))" by (simp add: a)
  have fb: "finite (selectedPgs (thumbClick 0 stateBA))" by (simp add: b)
  have n: "nths [Num 1, Num 0] (- {0::nat}) = [Num 0]"
    by (simp add: nths_Cons)
  show ?thesis
    using delete_guard[OF fa, of True] delete_guard[OF fb, of True]
    by (simp add: a b n)
qed

text \<open>
  In the script's initial state the selection (empty) is as large as the order table
  (empty), and the handler returns at its first guard: no \<^verbatim>\<open>'Cannot delete all pages.'\<close>.
  And with one of two positions selected, a cancelled dialog removes nothing.
\<close>

theorem delete_empty_counterexample:
  "card (selectedPgs (S_init :: string page list S)) = length (pageOrder (S_init :: string page list S))
   \<and> deleteSelectedBtn True (S_init :: string page list S) = (S_init, Inl EmptySelection)
   \<and> selectedPgs (thumbClick 0 stateBA) = {0}
   \<and> card (selectedPgs (thumbClick 0 stateBA)) < length (pageOrder (thumbClick 0 stateBA))
   \<and> deleteSelectedBtn False (thumbClick 0 stateBA) = (thumbClick 0 stateBA, Inl Cancelled)"
proof -
  have b: "selectedPgs (thumbClick 0 stateBA) = {0}" "pageOrder (thumbClick 0 stateBA) = [Num 1, Num 0]"
    by (simp_all add: thumbClick_def stateBA_def S_init_def)
  have c: "deleteSelectedBtn False (thumbClick 0 stateBA) = (thumbClick 0 stateBA, Inl Cancelled)"
    by (simp add: deleteSelectedBtn_def b)
  have e: "deleteSelectedBtn True (S_init :: string page list S) = (S_init, Inl EmptySelection)"
    by (simp add: deleteSelectedBtn_def S_init_def)
  have z: "card (selectedPgs (S_init :: string page list S)) = length (pageOrder (S_init :: string page list S))"
    by (simp add: S_init_def)
  show ?thesis
    using b c e z by simp
qed

subsection \<open>Reorder, then delete, then rebuild\<close>

text \<open>
  Claim C7. On a four-page snapshot the table starts as \<open>[0,1,2,3]\<close>; moving position 0
  to position 2 gives \<open>[1,2,0,3]\<close>; position 1 then holds 2, and deleting it gives
  \<open>[1,0,3]\<close>; \<^verbatim>\<open>rebuild\<close> then asks the codec for pages \<open>1, 0, 3\<close> and serialises
  those three pages in that order.
\<close>

theorem reorder_then_delete:
  assumes "pdfjs_numPages cd bytes = Some 4" and "pdf_load cd bytes = Some [p0, p1, p2, p3]"
  shows "pageOrder (fst (ingestBytes cd bytes True s)) = [Num 0, Num 1, Num 2, Num 3]
    \<and> pageOrder (onEnd 0 2 (fst (ingestBytes cd bytes True s))) = [Num 1, Num 2, Num 0, Num 3]
    \<and> entryAt (pageOrder (onEnd 0 2 (fst (ingestBytes cd bytes True s)))) 1 = Num 2
    \<and> pageOrder (fst (deleteSelectedBtn True
          (thumbClick 1 (onEnd 0 2 (fst (ingestBytes cd bytes True s))))))
        = [Num 1, Num 0, Num 3]
    \<and> rebuild cd (fst (deleteSelectedBtn True
          (thumbClick 1 (onEnd 0 2 (fst (ingestBytes cd bytes True s))))))
        = ([Load, Create, CopyPages [Num 1, Num 0, Num 3], AddPage, AddPage, AddPage, Save],
           case pdf_save cd [p1, p0, p3] of None \<Rightarrow> Inl CodecSaveError | Some out \<Rightarrow> Inr out)"
proof -
  let ?s1 = "fst (ingestBytes cd bytes True s)"
  let ?s2 = "onEnd 0 2 ?s1"
  let ?s3 = "fst (deleteSelectedBtn True (thumbClick 1 ?s2))"
  have four: "[0..<4] = [0, 1, 2, 3]"
    by (simp add: upt_rec)
  have s1: "pageOrder ?s1 = [Num 0, Num 1, Num 2, Num 3]" "rawBytes ?s1 = Some bytes"
    "pageRots ?s1 = Map.empty"
    using assms(1) by (simp_all add: ingestBytes_def Let_def identityOrder_def four)
  have s2: "pageOrder ?s2 = [Num 1, Num 2, Num 0, Num 3]" "selectedPgs ?s2 = {}"
    "rawBytes ?s2 = Some bytes" "pageRots ?s2 = Map.empty"
    using s1 by (simp_all add: onEnd_def Let_def entryAt_def spliceOut_def spliceIn_def)
  have sel: "selectedPgs (thumbClick 1 ?s2) = {1}" "pageOrder (thumbClick 1 ?s2) = pageOrder ?s2"
    "rawBytes (thumbClick 1 ?s2) = Some bytes" "pageRots (thumbClick 1 ?s2) = Map.empty"
    using s2 by (simp_all add: thumbClick_def)
  have s3: "pageOrder ?s3 = [Num 1, Num 0, Num 3]" "rawBytes ?s3 = Some bytes"
    "pageRots ?s3 = Map.empty"
    using sel s2(1)
    by (simp_all add: deleteSelectedBtn_def Let_def spliceOut_def previewMain_def
        split: option.splits)
  have e: "entryAt (pageOrder ?s2) 1 = Num 2"
    by (simp add: s2 entryAt_def)
  have cp: "copyPages [p0, p1, p2, p3] [Num 1, Num 0, Num 3] = Some [p1, p0, p3]"
    by (simp add: copyPages_def)
  have r: "rebuild cd ?s3
        = ([Load, Create, CopyPages [Num 1, Num 0, Num 3], AddPage, AddPage, AddPage, Save],
           case pdf_save cd [p1, p0, p3] of None \<Rightarrow> Inl CodecSaveError | Some out \<Rightarrow> Inr out)"
    unfolding rebuild_def s3 using assms(2) cp
    by (simp add: Let_def rebuildPage_def extraOf_def)
  show ?thesis using s1(1) s2(1) e s3(1) r by simp
qed

theorem reorder_then_delete_witness:
  "pdfjs_numPages listCodec docABCD = Some 4
   \<and> pdf_load listCodec docABCD
       = Some [mkPage ''A'' None, mkPage ''B'' None, mkPage ''C'' None, mkPage ''D'' None]
   \<and> snd (rebuild listCodec (fst (deleteSelectedBtn True
          (thumbClick 1 (onEnd 0 2 (fst (ingestBytes listCodec docABCD True S_init)))))))
       = Inr [mkPage ''B'' None, mkPage ''A'' None, mkPage ''D'' None]"
proof -
  have h1: "pdfjs_numPages listCodec docABCD = Some 4"
    by (simp add: listCodec_def docABCD_def)
  have h2: "pdf_load listCodec docABCD
       = Some [mkPage ''A'' None, mkPage ''B'' None, mkPage ''C'' None, mkPage ''D'' None]"
    by (simp add: listCodec_def docABCD_def)
  show ?thesis
    using reorder_then_delete[OF h1 h2, of S_init] h1 h2 by (simp add: listCodec_def)
qed

subsection \<open>The order table under the operations\<close>

lemma previewMain_fields:
  "rawBytes (previewMain p s) = rawBytes s" "pageOrder (previewMain p s) = pageOrder s"
  "pageRots (previewMain p s) = pageRots s" "selectedPgs (previewMain p s) = selectedPgs s"
  "totalPages (previewMain p s) = totalPages s" "pdfJsDoc (previewMain p s) = pdfJsDoc s"
  "mergeFiles (previewMain p s) = mergeFiles s"
  by (simp_all add: previewMain_def split: option.splits)

lemma length_identityOrder: "length (identityOrder n) = n"
  by (simp add: identityOrder_def)

lemma distinct_identityOrder: "distinct (identityOrder n)"
  by (simp add: identityOrder_def distinct_map inj_on_def)

lemma safe_identityOrder: "list_all (safeEntry n) (identityOrder n)"
  by (simp add: identityOrder_def list_all_iff)

lemma safeEntry_iff_identityOrder: "safeEntry n e \<longleftrightarrow> e \<in> set (identityOrder n)"
proof (cases e)
  case (Num i)
  show ?thesis
  proof
    assume "safeEntry n e"
    then have "0 \<le> i" and "nat i < n" using Num by auto
    then have "\<exists>x\<in>{0..<n}. i = int x"
      by (intro bexI[where x = "nat i"]) auto
    then show "e \<in> set (identityOrder n)"
      using Num by (simp add: identityOrder_def image_iff)
  next
    assume "e \<in> set (identityOrder n)"
    then show "safeEntry n e" using Num by (auto simp: identityOrder_def)
  qed
next
  case Undefined
  then show ?thesis by (auto simp: identityOrder_def)
qed

lemma permutation_is_valid:
  assumes "orderIsPermutation cd s" and "totalPages s = length (pageOrder s)"
  shows "orderValid cd s"
  using assms
  by (auto simp: orderIsPermutation_def orderValid_def list_all_iff safeEntry_iff_identityOrder
      split: option.splits)

lemma set_spliceOut_subset: "set (spliceOut i xs) \<subseteq> set xs"
  unfolding spliceOut_def using set_take_subset[of i xs] set_drop_subset[of "Suc i" xs] by auto

lemma distinct_spliceOut: "distinct xs \<Longrightarrow> distinct (spliceOut i xs)"
  unfolding spliceOut_def
  by (simp add: set_take_disj_set_drop_if_distinct)

lemma set_fold_spliceOut: "set (fold spliceOut ds xs) \<subseteq> set xs"
proof (induction ds arbitrary: xs)
  case Nil
  show ?case by simp
next
  case (Cons d ds)
  have "set (fold spliceOut ds (spliceOut d xs)) \<subseteq> set (spliceOut d xs)"
    by (rule Cons.IH)
  then show ?case using set_spliceOut_subset[of d xs] by auto
qed

lemma distinct_fold_spliceOut: "distinct xs \<Longrightarrow> distinct (fold spliceOut ds xs)"
  by (induction ds arbitrary: xs) (simp_all add: distinct_spliceOut)

lemma reorder_list:
  assumes "i < length xs"
  shows "set (spliceIn j (entryAt xs i) (spliceOut i xs)) = set xs"
    and "length (spliceIn j (entryAt xs i) (spliceOut i xs)) = length xs"
    and "distinct xs \<Longrightarrow> distinct (spliceIn j (entryAt xs i) (spliceOut i xs))"
proof -
  let ?ys = "spliceOut i xs"
  have xs: "xs = take i xs @ xs ! i # drop (Suc i) xs"
    using assms by (rule id_take_nth_drop)
  have e: "entryAt xs i = xs ! i"
    using assms by (simp add: entryAt_def)
  have ys: "set (take j ?ys) \<union> set (drop j ?ys) = set ?ys"
    by (metis append_take_drop_id set_append)
  have sx: "set xs = insert (xs ! i) (set ?ys)"
    unfolding spliceOut_def by (subst xs) auto
  show "set (spliceIn j (entryAt xs i) ?ys) = set xs"
    unfolding spliceIn_def e using ys sx by auto
  show "length (spliceIn j (entryAt xs i) ?ys) = length xs"
    using assms by (simp add: spliceIn_def spliceOut_def) 
  assume d: "distinct xs"
  then have "distinct (take i xs @ xs ! i # drop (Suc i) xs)"
    using xs by simp
  then have notin: "xs ! i \<notin> set ?ys" and dy: "distinct ?ys"
    unfolding spliceOut_def by auto
  have dd: "set (take j ?ys) \<inter> set (drop j ?ys) = {}"
    using dy by (simp add: set_take_disj_set_drop_if_distinct)
  have "xs ! i \<notin> set (take j ?ys)" and "xs ! i \<notin> set (drop j ?ys)"
    using notin ys by auto
  then show "distinct (spliceIn j (entryAt xs i) ?ys)"
    unfolding spliceIn_def e using dd dy by simp
qed


lemma orderValid_cong:
  assumes "rawBytes s' = rawBytes s" and "orderValid cd s"
    and "distinct (pageOrder s) \<Longrightarrow> distinct (pageOrder s')"
    and "set (pageOrder s') \<subseteq> set (pageOrder s)"
    and "length (pageOrder s') = totalPages s'"
  shows "orderValid cd s'"
proof -
  have sp: "snapshotPages cd s' = snapshotPages cd s"
    by (simp add: snapshotPages_def assms(1))
  from assms(2) obtain n where n: "snapshotPages cd s = Some n" and d: "distinct (pageOrder s)"
    and v: "\<forall>e\<in>set (pageOrder s). safeEntry n e"
    by (auto simp: orderValid_def list_all_iff split: option.splits)
  have "\<forall>e\<in>set (pageOrder s'). safeEntry n e"
    using v assms(4) by blast
  then show ?thesis
    using sp n assms(3)[OF d] assms(5) by (simp add: orderValid_def list_all_iff)
qed

lemma orderIsPermutation_cong:
  assumes "rawBytes s' = rawBytes s" and "orderIsPermutation cd s"
    and "distinct (pageOrder s) \<Longrightarrow> distinct (pageOrder s')"
    and "set (pageOrder s') = set (pageOrder s)"
  shows "orderIsPermutation cd s'"
proof -
  have sp: "snapshotPages cd s' = snapshotPages cd s"
    by (simp add: snapshotPages_def assms(1))
  show ?thesis
    using assms(2,3,4) sp by (auto simp: orderIsPermutation_def split: option.splits)
qed

lemma installed_identity:
  assumes "rawBytes s' = Some bytes" and "pdfjs_numPages cd bytes = Some n"
    and "pageOrder s' = identityOrder n" and "totalPages s' = n"
  shows "orderIsPermutation cd s' \<and> orderValid cd s'"
  using assms
  by (simp add: orderIsPermutation_def orderValid_def snapshotPages_def distinct_identityOrder
      safe_identityOrder length_identityOrder)

lemma ingestBytes_new_success:
  assumes "ingestBytes cd bytes True s = (s', Inr ())"
  shows "\<exists>n. pdfjs_numPages cd bytes = Some n \<and> rawBytes s' = Some bytes \<and> pdfJsDoc s' = Some n
           \<and> totalPages s' = n \<and> pageOrder s' = identityOrder n \<and> pageRots s' = Map.empty
           \<and> selectedPgs s' = {} \<and> curPage s' = 1"
  using assms by (auto simp: ingestBytes_def Let_def split: option.splits)

lemma applyEdit_success:
  assumes "applyEdit cd bytes s = (s', Inr ())"
  shows "\<exists>n. pdfjs_numPages cd bytes = Some n \<and> rawBytes s' = Some bytes \<and> pdfJsDoc s' = Some n
           \<and> totalPages s' = n \<and> pageOrder s' = identityOrder n \<and> pageRots s' = Map.empty
           \<and> selectedPgs s' = selectedPgs s \<and> curPage s' = max 1 (min (curPage s) n)
           \<and> mergeFiles s' = mergeFiles s"
  using assms by (auto simp: applyEdit_def Let_def previewMain_def split: option.splits)

lemma onEnd_valid:
  assumes "oldIndex < length (pageOrder s)"
  shows "orderValid cd s \<Longrightarrow> orderValid cd (onEnd oldIndex newIndex s)"
    and "orderIsPermutation cd s \<Longrightarrow> orderIsPermutation cd (onEnd oldIndex newIndex s)"
proof -
  have f: "rawBytes (onEnd oldIndex newIndex s) = rawBytes s"
    "totalPages (onEnd oldIndex newIndex s) = totalPages s"
    "pageOrder (onEnd oldIndex newIndex s)
       = spliceIn newIndex (entryAt (pageOrder s) oldIndex) (spliceOut oldIndex (pageOrder s))"
    by (simp_all add: onEnd_def Let_def)
  note r = reorder_list[OF assms, of newIndex]
  show "orderValid cd (onEnd oldIndex newIndex s)" if v: "orderValid cd s"
  proof (rule orderValid_cong[OF f(1) v])
    show "distinct (pageOrder s) \<Longrightarrow> distinct (pageOrder (onEnd oldIndex newIndex s))"
      unfolding f(3) by (rule r(3))
    show "set (pageOrder (onEnd oldIndex newIndex s)) \<subseteq> set (pageOrder s)"
      unfolding f(3) using r(1) by simp
    show "length (pageOrder (onEnd oldIndex newIndex s)) = totalPages (onEnd oldIndex newIndex s)"
      unfolding f(2,3) using r(2) v by (auto simp: orderValid_def split: option.splits)
  qed
  show "orderIsPermutation cd (onEnd oldIndex newIndex s)" if p: "orderIsPermutation cd s"
  proof (rule orderIsPermutation_cong[OF f(1) p])
    show "distinct (pageOrder s) \<Longrightarrow> distinct (pageOrder (onEnd oldIndex newIndex s))"
      unfolding f(3) by (rule r(3))
    show "set (pageOrder (onEnd oldIndex newIndex s)) = set (pageOrder s)"
      unfolding f(3) by (rule r(1))
  qed
qed

lemma rotateSel_fields:
  "rawBytes (fst (rotateSel deg s)) = rawBytes s"
  "pageOrder (fst (rotateSel deg s)) = pageOrder s"
  "totalPages (fst (rotateSel deg s)) = totalPages s"
  by (simp_all add: rotateSel_def Let_def previewMain_fields)

lemma rotateSel_valid:
  "orderValid cd s \<Longrightarrow> orderValid cd (fst (rotateSel deg s))"
  "orderIsPermutation cd s \<Longrightarrow> orderIsPermutation cd (fst (rotateSel deg s))"
proof -
  show "orderValid cd (fst (rotateSel deg s))" if v: "orderValid cd s"
    by (rule orderValid_cong[OF rotateSel_fields(1) v])
       (use v in \<open>auto simp: rotateSel_fields orderValid_def split: option.splits\<close>)
  show "orderIsPermutation cd (fst (rotateSel deg s))" if p: "orderIsPermutation cd s"
    by (rule orderIsPermutation_cong[OF rotateSel_fields(1) p])
       (simp_all add: rotateSel_fields)
qed

lemma deleteSelectedBtn_valid:
  assumes "orderValid cd s"
  shows "orderValid cd (fst (deleteSelectedBtn confirmed s))"
proof (cases "snd (deleteSelectedBtn confirmed s)")
  case (Inl e)
  then have "fst (deleteSelectedBtn confirmed s) = s"
    by (auto simp: deleteSelectedBtn_def Let_def split: if_splits)
  then show ?thesis using assms by simp
next
  case (Inr u)
  let ?o = "fold spliceOut (rev (sorted_list_of_set (selectedPgs s))) (pageOrder s)"
  from Inr have f: "rawBytes (fst (deleteSelectedBtn confirmed s)) = rawBytes s"
    "pageOrder (fst (deleteSelectedBtn confirmed s)) = ?o"
    "totalPages (fst (deleteSelectedBtn confirmed s)) = length ?o"
    by (auto simp: deleteSelectedBtn_def Let_def previewMain_fields split: if_splits)
  show ?thesis
  proof (rule orderValid_cong[OF f(1) assms])
    show "distinct (pageOrder s) \<Longrightarrow> distinct (pageOrder (fst (deleteSelectedBtn confirmed s)))"
      unfolding f(2) by (rule distinct_fold_spliceOut)
    show "set (pageOrder (fst (deleteSelectedBtn confirmed s))) \<subseteq> set (pageOrder s)"
      unfolding f(2) by (rule set_fold_spliceOut)
    show "length (pageOrder (fst (deleteSelectedBtn confirmed s)))
            = totalPages (fst (deleteSelectedBtn confirmed s))"
      unfolding f(2,3) by simp
  qed
qed


text \<open>
  Claim C5, as the code has it. A successful \<^verbatim>\<open>ingestBytes(bytes, true)\<close> and a
  successful \<^verbatim>\<open>applyEdit\<close> leave the order table the identity permutation of the new
  snapshot's page count. Reordering (from a position inside the table) and rotating keep
  it a permutation. Deleting removes entries from the table while the snapshot stays, so
  after a delete the table is shorter than the snapshot's page count; what every operation
  keeps is that the table's entries are distinct pages of the installed snapshot and that
  \<^verbatim>\<open>S.totalPages\<close> is the table's length.
\<close>

theorem order_table_invariant:
  "(ingestBytes cd bytes True s = (s', Inr ())
      \<longrightarrow> orderIsPermutation cd s' \<and> orderValid cd s')
   \<and> (applyEdit cd bytes s = (s', Inr ())
      \<longrightarrow> orderIsPermutation cd s' \<and> orderValid cd s')
   \<and> (orderIsPermutation cd s \<and> oldIndex < length (pageOrder s)
      \<longrightarrow> orderIsPermutation cd (onEnd oldIndex newIndex s))
   \<and> (orderValid cd s \<and> oldIndex < length (pageOrder s)
      \<longrightarrow> orderValid cd (onEnd oldIndex newIndex s))
   \<and> (orderIsPermutation cd s \<longrightarrow> orderIsPermutation cd (fst (rotateSel deg s)))
   \<and> (orderValid cd s \<longrightarrow> orderValid cd (fst (rotateSel deg s)))
   \<and> (orderValid cd s \<longrightarrow> orderValid cd (fst (deleteSelectedBtn confirmed s)))"
proof (intro conjI impI)
  assume "ingestBytes cd bytes True s = (s', Inr ())"
  from ingestBytes_new_success[OF this] obtain n where
    "rawBytes s' = Some bytes" "pdfjs_numPages cd bytes = Some n"
    "pageOrder s' = identityOrder n" "totalPages s' = n"
    by blast
  then have both: "orderIsPermutation cd s' \<and> orderValid cd s'"
    by (rule installed_identity)
  from both show "orderIsPermutation cd s'" ..
  from both show "orderValid cd s'" ..
next
  assume "applyEdit cd bytes s = (s', Inr ())"
  from applyEdit_success[OF this] obtain n where
    "rawBytes s' = Some bytes" "pdfjs_numPages cd bytes = Some n"
    "pageOrder s' = identityOrder n" "totalPages s' = n"
    by blast
  then have both: "orderIsPermutation cd s' \<and> orderValid cd s'"
    by (rule installed_identity)
  from both show "orderIsPermutation cd s'" ..
  from both show "orderValid cd s'" ..
next
  assume "orderIsPermutation cd s \<and> oldIndex < length (pageOrder s)"
  then show "orderIsPermutation cd (onEnd oldIndex newIndex s)"
    using onEnd_valid(2) by blast
next
  assume "orderValid cd s \<and> oldIndex < length (pageOrder s)"
  then show "orderValid cd (onEnd oldIndex newIndex s)"
    using onEnd_valid(1) by blast
next
  assume "orderIsPermutation cd s"
  then show "orderIsPermutation cd (fst (rotateSel deg s))"
    by (rule rotateSel_valid(2))
next
  assume "orderValid cd s"
  then show "orderValid cd (fst (rotateSel deg s))"
    by (rule rotateSel_valid(1))
next
  assume "orderValid cd s"
  then show "orderValid cd (fst (deleteSelectedBtn confirmed s))"
    by (rule deleteSelectedBtn_valid)
qed

lemma upt_3: "[0..<3] = [0, 1, 2]"
  by (simp add: upt_rec)

lemma identityOrder_3: "identityOrder 3 = [Num 0, Num 1, Num 2]"
  by (simp add: identityOrder_def upt_3)

lemma stateABC_eval:
  "stateABC = \<lparr>pdfJsDoc = Some 3, rawBytes = Some docABC, pageOrder = [Num 0, Num 1, Num 2],
               pageRots = Map.empty, selectedPgs = {}, curPage = 1, totalPages = 3,
               mergeFiles = []\<rparr>"
proof -
  have n: "pdfjs_numPages listCodec docABC = Some 3"
    by (simp add: listCodec_def docABC_def)
  show ?thesis
    by (simp add: stateABC_def ingestBytes_def n S_init_def identityOrder_3)
qed


lemma click_eval: "thumbClick 1 stateABC = stateABC\<lparr>selectedPgs := {1}\<rparr>"
  by (simp add: thumbClick_def stateABC_eval)

lemma delete_B_eval:
  "deleteSelectedBtn True (stateABC\<lparr>selectedPgs := {1}\<rparr>)
     = (stateABC\<lparr>pageOrder := [Num 0, Num 2], totalPages := 2\<rparr>, Inr ())"
proof -
  have f: "selectedPgs (stateABC\<lparr>selectedPgs := {1}\<rparr>) = {1}"
    "pageOrder (stateABC\<lparr>selectedPgs := {1}\<rparr>) = [Num 0, Num 1, Num 2]"
    "curPage (stateABC\<lparr>selectedPgs := {1}\<rparr>) = 1"
    "pdfJsDoc (stateABC\<lparr>selectedPgs := {1}\<rparr>) = Some 3"
    by (simp_all add: stateABC_eval)
  have o: "fold spliceOut (rev (sorted_list_of_set {1::nat})) [Num 0, Num 1, Num 2] = [Num 0, Num 2]"
    by (simp add: spliceOut_def)
  show ?thesis
    unfolding deleteSelectedBtn_def f o
    by (simp add: previewMain_def stateABC_eval)
qed


lemma snapshotPages_ABC:
  "snapshotPages listCodec stateABC = Some 3"
  "snapshotPages listCodec (stateABC\<lparr>pageOrder := [Num 0, Num 2], totalPages := 2\<rparr>) = Some 3"
  by (simp_all add: stateABC_eval snapshotPages_def listCodec_def docABC_def)

text \<open>
  After ingesting three pages and deleting position 1 the table is \<open>[0, 2]\<close> while the
  installed snapshot still has three pages: entry 1 is missing. Against
  \<^verbatim>\<open>S.totalPages\<close>, which the delete has set to 2, entry 2 is out of range.
\<close>

theorem order_permutation_counterexample:
  "orderIsPermutation listCodec stateABC
   \<and> snd (deleteSelectedBtn True (thumbClick 1 stateABC)) = Inr ()
   \<and> pageOrder (fst (deleteSelectedBtn True (thumbClick 1 stateABC))) = [Num 0, Num 2]
   \<and> snapshotPages listCodec (fst (deleteSelectedBtn True (thumbClick 1 stateABC))) = Some 3
   \<and> totalPages (fst (deleteSelectedBtn True (thumbClick 1 stateABC))) = 2
   \<and> \<not> safeEntry 2 (Num 2)
   \<and> \<not> orderIsPermutation listCodec (fst (deleteSelectedBtn True (thumbClick 1 stateABC)))"
proof -
  have ne: "{Num 0, Num 2} \<noteq> {Num 0, Num 1, Num 2}"
    by (simp add: insert_eq_iff)
  have o: "pageOrder stateABC = [Num 0, Num 1, Num 2]"
    by (simp add: stateABC_eval)
  have a: "orderIsPermutation listCodec stateABC"
    by (simp add: orderIsPermutation_def snapshotPages_ABC identityOrder_3 o)
  have b: "\<not> orderIsPermutation listCodec (stateABC\<lparr>pageOrder := [Num 0, Num 2], totalPages := 2\<rparr>)"
    using ne by (simp add: orderIsPermutation_def snapshotPages_ABC identityOrder_3)
  show ?thesis
    unfolding click_eval delete_B_eval using a b snapshotPages_ABC(2) by simp
qed

theorem order_table_invariant_witness:
  "ingestBytes listCodec docABC True S_init = (stateABC, Inr ())
   \<and> orderIsPermutation listCodec stateABC \<and> orderValid listCodec stateABC
   \<and> applyEdit listCodec docABC stateABC = (stateABC, Inr ())
   \<and> (0::nat) < length (pageOrder stateABC)
   \<and> orderIsPermutation listCodec (onEnd 0 2 stateABC)
   \<and> orderValid listCodec (onEnd 0 2 stateABC)
   \<and> orderIsPermutation listCodec (fst (rotateSel 90 stateABC))
   \<and> orderValid listCodec (fst (rotateSel 90 stateABC))
   \<and> orderValid listCodec (stateABC\<lparr>selectedPgs := {1}\<rparr>)
   \<and> orderValid listCodec (fst (deleteSelectedBtn True (stateABC\<lparr>selectedPgs := {1}\<rparr>)))"
proof -
  have n: "pdfjs_numPages listCodec docABC = Some 3"
    by (simp add: listCodec_def docABC_def)
  have i: "ingestBytes listCodec docABC True S_init = (stateABC, Inr ())"
    by (simp add: stateABC_def ingestBytes_def n)
  have e: "applyEdit listCodec docABC stateABC = (stateABC, Inr ())"
    by (simp add: applyEdit_def n identityOrder_3 previewMain_def) (simp add: stateABC_eval)
  have l: "0 < length (pageOrder stateABC)"
    by (simp add: stateABC_eval)
  note t = order_table_invariant[of listCodec docABC stateABC stateABC 0 2 90 True]
  have pv: "orderIsPermutation listCodec stateABC \<and> orderValid listCodec stateABC"
    using order_table_invariant[of listCodec docABC S_init stateABC] i by blast
  then have p: "orderIsPermutation listCodec stateABC" and v: "orderValid listCodec stateABC"
    by blast+
  have r1: "orderIsPermutation listCodec (onEnd 0 2 stateABC)"
    using t p l by blast
  have r2: "orderValid listCodec (onEnd 0 2 stateABC)"
    using t v l by blast
  have r3: "orderIsPermutation listCodec (fst (rotateSel 90 stateABC))"
    using t p by blast
  have r4: "orderValid listCodec (fst (rotateSel 90 stateABC))"
    using t v by blast
  have vs: "orderValid listCodec (stateABC\<lparr>selectedPgs := {1}\<rparr>)"
    by (rule orderValid_cong[OF _ v]) (use v in \<open>auto simp: orderValid_def split: option.splits\<close>)
  have r5: "orderValid listCodec (fst (deleteSelectedBtn True (stateABC\<lparr>selectedPgs := {1}\<rparr>)))"
    using order_table_invariant[of listCodec docABC "stateABC\<lparr>selectedPgs := {1}\<rparr>" stateABC 0 2 90 True]
      vs by blast
  show ?thesis
    using i e l p v r1 r2 r3 r4 vs r5 by blast
qed

subsection \<open>The content-edit protocol\<close>

text \<open>
  Claim C2, as the code has it. After a successful \<^verbatim>\<open>addTextBtn\<close> run (rebuild,
  reload, draw, save, \<^verbatim>\<open>applyEdit\<close>), whatever the state was before: the bytes saved
  after drawing are the new \<^verbatim>\<open>S.rawBytes\<close>, the order table is the identity over the
  new page count, the rotation ledger is empty, and the current page is
  \<open>max 1 (min previous pageCount)\<close>, inside the new bounds when the new document has a
  page. The selection is left as it was: \<^verbatim>\<open>applyEdit\<close> does not touch
  \<^verbatim>\<open>S.selectedPgs\<close>.
\<close>

theorem commit_resets_state:
  assumes "addTextBtn cd draw text pg s = (s', Inr ())"
  shows "\<exists>base doc doc' commit n.
           snd (rebuild cd s) = Inr base \<and> pdf_load cd base = Some doc
           \<and> drawOnPage draw doc (nat (the pg - 1)) = Some doc'
           \<and> pdf_save cd doc' = Some commit \<and> pdfjs_numPages cd commit = Some n
           \<and> rawBytes s' = Some commit \<and> totalPages s' = n
           \<and> pageOrder s' = identityOrder n
           \<and> pageRots s' = Map.empty
           \<and> selectedPgs s' = selectedPgs s
           \<and> curPage s' = max 1 (min (curPage s) n)
           \<and> (1 \<le> n \<longrightarrow> 1 \<le> curPage s' \<and> curPage s' \<le> n)"
proof -
  from assms obtain base doc doc' commit where
    b: "snd (rebuild cd s) = Inr base" and d: "pdf_load cd base = Some doc"
    and m: "drawOnPage draw doc (nat (the pg - 1)) = Some doc'"
    and c: "pdf_save cd doc' = Some commit"
    and a: "applyEdit cd commit s = (s', Inr ())"
    by (auto simp: addTextBtn_def split: if_splits sum.splits option.splits prod.splits)
  from applyEdit_success[OF a] obtain n where
    n: "pdfjs_numPages cd commit = Some n" "rawBytes s' = Some commit" "totalPages s' = n"
      "pageOrder s' = identityOrder n" "pageRots s' = Map.empty"
      "selectedPgs s' = selectedPgs s" "curPage s' = max 1 (min (curPage s) n)"
    by blast
  have "1 \<le> n \<longrightarrow> 1 \<le> curPage s' \<and> curPage s' \<le> n"
    using n(7) by auto
  then show ?thesis
    using b d m c n by blast
qed

lemma addText_stateSel:
  "addTextBtn listCodec drawBang ''hi'' (Some 1) stateSel
     = (stateSel\<lparr>rawBytes := Some [mkPage ''A!'' (Some 90)], pageRots := Map.empty\<rparr>, Inr ())"
proof -
  have g: "rawBytes stateSel \<noteq> None" "okPage stateSel (Some 1)"
    by (simp_all add: stateSel_def okPage_def)
  have rb: "snd (rebuild listCodec stateSel) = Inr [mkPage ''A'' (Some 90)]"
    by (simp add: rebuild_def stateSel_def S_init_def listCodec_def docA_def copyPages_def
        rebuildPage_def setRotation_def extraOf_def getPageRotationAngle_def js_rem_def mkPage_def)
  have ld: "pdf_load listCodec [mkPage ''A'' (Some 90)] = Some [mkPage ''A'' (Some 90)]"
    by (simp add: listCodec_def)
  have dr: "drawOnPage drawBang [mkPage ''A'' (Some 90)] 0 = Some [mkPage ''A!'' (Some 90)]"
    by (simp add: drawOnPage_def drawBang_def mkPage_def)
  have sv: "pdf_save listCodec [mkPage ''A!'' (Some 90)] = Some [mkPage ''A!'' (Some 90)]"
    by (simp add: listCodec_def)
  have n: "pdfjs_numPages listCodec [mkPage ''A!'' (Some 90)] = Some 1"
    by (simp add: listCodec_def)
  have ap: "applyEdit listCodec [mkPage ''A!'' (Some 90)] stateSel
              = (stateSel\<lparr>rawBytes := Some [mkPage ''A!'' (Some 90)], pageRots := Map.empty\<rparr>,
                 Inr ())"
    by (simp add: applyEdit_def n previewMain_def identityOrder_def) (simp add: stateSel_def S_init_def)
  show ?thesis
    unfolding addTextBtn_def using g by (simp add: rb ld dr sv ap)
qed

theorem commit_resets_state_witness:
  "addTextBtn listCodec drawBang ''hi'' (Some 1) stateSel
     = (stateSel\<lparr>rawBytes := Some [mkPage ''A!'' (Some 90)], pageRots := Map.empty\<rparr>, Inr ())
   \<and> (\<exists>commit n.
         rawBytes (stateSel\<lparr>rawBytes := Some [mkPage ''A!'' (Some 90)], pageRots := Map.empty\<rparr>)
           = Some commit
         \<and> pdfjs_numPages listCodec commit = Some n
         \<and> pageOrder (stateSel\<lparr>rawBytes := Some [mkPage ''A!'' (Some 90)], pageRots := Map.empty\<rparr>)
             = identityOrder n
         \<and> pageRots (stateSel\<lparr>rawBytes := Some [mkPage ''A!'' (Some 90)], pageRots := Map.empty\<rparr>)
             = Map.empty
         \<and> selectedPgs (stateSel\<lparr>rawBytes := Some [mkPage ''A!'' (Some 90)], pageRots := Map.empty\<rparr>)
             = selectedPgs stateSel
         \<and> curPage (stateSel\<lparr>rawBytes := Some [mkPage ''A!'' (Some 90)], pageRots := Map.empty\<rparr>)
             = max 1 (min (curPage stateSel) n))"
  using addText_stateSel commit_resets_state[OF addText_stateSel] by blast

text \<open>
  With position 0 selected before the edit, position 0 is still selected after the commit.
\<close>

theorem commit_selection_counterexample:
  "addTextBtn listCodec drawBang ''hi'' (Some 1) stateSel
     = (stateSel\<lparr>rawBytes := Some [mkPage ''A!'' (Some 90)], pageRots := Map.empty\<rparr>, Inr ())
   \<and> selectedPgs (stateSel\<lparr>rawBytes := Some [mkPage ''A!'' (Some 90)], pageRots := Map.empty\<rparr>)
       = {0}"
  using addText_stateSel by (simp add: stateSel_def)

text \<open>
  The first revision's \<^verbatim>\<open>reloadFromBytes\<close> is what \<^verbatim>\<open>applyEdit\<close> corrects: when the
  committed document has as many pages as the order table has entries, it keeps the table
  and the ledger of the replaced snapshot.
\<close>

lemma reloadFromBytes_same_count:
  assumes "reloadFromBytes cd bytes s = (s', Inr ())"
    and "pdfjs_numPages cd bytes = Some (length (pageOrder s))"
  shows "pageOrder s' = pageOrder s \<and> pageRots s' = pageRots s"
  using assms
  by (auto simp: reloadFromBytes_def Let_def previewMain_fields split: option.splits)

text \<open>
  Claim C3. When \<^verbatim>\<open>addTextBtn\<close> fails at a guard, in \<^verbatim>\<open>rebuild\<close>, in reloading the
  baseline, in the drawing or in \<^verbatim>\<open>save\<close>, the state is exactly the state before:
  \<^verbatim>\<open>applyEdit\<close>, the only writer, has not been called.
\<close>

theorem edit_failure_leaves_state:
  assumes "addTextBtn cd draw text pg s = (s', Inl (st, e))" and "st \<noteq> Commit"
  shows "s' = s"
  using assms
  by (auto simp: addTextBtn_def split: if_splits sum.splits option.splits prod.splits)

lemma rebuild_stateFlaky:
  "snd (rebuild flakyCodec stateFlaky) = Inr 1"
  "snd (rebuild flakyCodec (stateFlaky\<lparr>pageOrder := []\<rparr>)) = Inr 7"
  by (simp_all add: rebuild_def stateFlaky_def S_init_def flakyCodec_def copyPages_def
      rebuildPage_def extraOf_def mkPage_def)

theorem edit_failure_leaves_state_witness:
  "addTextBtn listCodec drawBang ''hi'' (Some 1) stateBad = (stateBad, Inl (Rebuild, CodecCopyError))
   \<and> addTextBtn flakyCodec drawBang ''hi'' (Some 1) (stateFlaky\<lparr>pageOrder := []\<rparr>)
       = (stateFlaky\<lparr>pageOrder := []\<rparr>, Inl (Reload, SourceUnreadable))
   \<and> addTextBtn listCodec (\<lambda>c. None) ''hi'' (Some 1) stateSel
       = (stateSel, Inl (Mutation, MutationError))
   \<and> addTextBtn flakyCodec drawBang ''hi'' (Some 1) stateFlaky
       = (stateFlaky, Inl (Serialize, CodecSaveError))"
proof -
  have r1: "snd (addTextBtn listCodec drawBang ''hi'' (Some 1) stateBad)
              = Inl (Rebuild, CodecCopyError)"
    by (simp add: addTextBtn_def okPage_def rebuild_def stateBad_def S_init_def listCodec_def
        copyPages_def)
  have r2: "snd (addTextBtn flakyCodec drawBang ''hi'' (Some 1) (stateFlaky\<lparr>pageOrder := []\<rparr>))
              = Inl (Reload, SourceUnreadable)"
    by (simp add: addTextBtn_def rebuild_stateFlaky) (simp add: okPage_def stateFlaky_def flakyCodec_def)
  have r3: "snd (addTextBtn listCodec (\<lambda>c. None) ''hi'' (Some 1) stateSel)
              = Inl (Mutation, MutationError)"
  proof -
    have rb: "snd (rebuild listCodec stateSel) = Inr [mkPage ''A'' (Some 90)]"
      by (simp add: rebuild_def stateSel_def S_init_def listCodec_def docA_def copyPages_def
          rebuildPage_def setRotation_def extraOf_def getPageRotationAngle_def js_rem_def mkPage_def)
    show ?thesis
      by (simp add: addTextBtn_def rb) (simp add: okPage_def stateSel_def listCodec_def drawOnPage_def)
  qed
  have r4: "snd (addTextBtn flakyCodec drawBang ''hi'' (Some 1) stateFlaky)
              = Inl (Serialize, CodecSaveError)"
    by (simp add: addTextBtn_def rebuild_stateFlaky)
       (simp add: okPage_def stateFlaky_def flakyCodec_def drawOnPage_def drawBang_def mkPage_def)
  have c: "x = (fst x, e) \<longleftrightarrow> snd x = e" for x :: "'a \<times> 'b" and e
    by (cases x) simp
  have s1: "fst (addTextBtn listCodec drawBang ''hi'' (Some 1) stateBad) = stateBad"
    using edit_failure_leaves_state[of listCodec drawBang "''hi''" "Some 1" stateBad
        "fst (addTextBtn listCodec drawBang ''hi'' (Some 1) stateBad)" Rebuild CodecCopyError]
    by (simp add: c r1)
  have s2: "fst (addTextBtn flakyCodec drawBang ''hi'' (Some 1) (stateFlaky\<lparr>pageOrder := []\<rparr>))
              = stateFlaky\<lparr>pageOrder := []\<rparr>"
    using edit_failure_leaves_state[of flakyCodec drawBang "''hi''" "Some 1" "stateFlaky\<lparr>pageOrder := []\<rparr>"
        "fst (addTextBtn flakyCodec drawBang ''hi'' (Some 1) (stateFlaky\<lparr>pageOrder := []\<rparr>))" Reload SourceUnreadable]
    by (simp add: c r2)
  have s3: "fst (addTextBtn listCodec (\<lambda>c. None) ''hi'' (Some 1) stateSel) = stateSel"
    using edit_failure_leaves_state[of listCodec "\<lambda>c. None" "''hi''" "Some 1" stateSel
        "fst (addTextBtn listCodec (\<lambda>c. None) ''hi'' (Some 1) stateSel)" Mutation MutationError]
    by (simp add: c r3)
  have s4: "fst (addTextBtn flakyCodec drawBang ''hi'' (Some 1) stateFlaky) = stateFlaky"
    using edit_failure_leaves_state[of flakyCodec drawBang "''hi''" "Some 1" stateFlaky
        "fst (addTextBtn flakyCodec drawBang ''hi'' (Some 1) stateFlaky)" Serialize CodecSaveError]
    by (simp add: c r4)
  show ?thesis
    using r1 r2 r3 r4 s1 s2 s3 s4 by (simp add: prod_eq_iff)
qed

subsection \<open>Merge\<close>

lemma mergeLoop_all:
  "map (pdf_load cd) fs = map Some docs \<Longrightarrow> mergeLoop cd fs merged = Inr (merged @ concat docs)"
proof (induction fs arbitrary: docs merged)
  case Nil
  then show ?case by simp
next
  case (Cons f fs)
  from Cons.prems obtain d ds where docs: "docs = d # ds" and f: "pdf_load cd f = Some d"
    and rest: "map (pdf_load cd) fs = map Some ds"
    by (cases docs) auto
  show ?case
    using Cons.IH[OF rest] f by (simp add: docs copyPages_identity)
qed

text \<open>
  Claim C9. With fewer than two files queued, \<^verbatim>\<open>mergeBtn\<close> stops at its guard. With
  two or more files that all load, it serialises the concatenation of their pages, each
  file's pages in their own order and the files in the order of the list. It never changes
  the state, and its result depends on no field of the state other than
  \<^verbatim>\<open>S.mergeFiles\<close>.
\<close>

theorem merge_concatenates:
  "(length (mergeFiles s) < 2 \<longrightarrow> mergeBtn cd s = (s, Inl InsufficientInputs))
   \<and> (2 \<le> length (mergeFiles s) \<and> map (pdf_load cd) (mergeFiles s) = map Some docs
       \<longrightarrow> mergeBtn cd s
             = (s, case pdf_save cd (concat docs) of
                     None \<Rightarrow> Inl CodecSaveError
                   | Some out \<Rightarrow> Inr out))
   \<and> fst (mergeBtn cd s) = s
   \<and> (mergeFiles s2 = mergeFiles s \<longrightarrow> snd (mergeBtn cd s2) = snd (mergeBtn cd s))"
proof (intro conjI impI)
  assume "length (mergeFiles s) < 2"
  then show "mergeBtn cd s = (s, Inl InsufficientInputs)"
    by (simp add: mergeBtn_def)
next
  assume h: "2 \<le> length (mergeFiles s) \<and> map (pdf_load cd) (mergeFiles s) = map Some docs"
  then have "mergeLoop cd (mergeFiles s) [] = Inr (concat docs)"
    using mergeLoop_all[of cd "mergeFiles s" docs "[]"] by simp
  then show "mergeBtn cd s
             = (s, case pdf_save cd (concat docs) of
                     None \<Rightarrow> Inl CodecSaveError
                   | Some out \<Rightarrow> Inr out)"
    using h by (simp add: mergeBtn_def split: option.splits)
next
  show "fst (mergeBtn cd s) = s"
    by (simp add: mergeBtn_def split: sum.splits option.splits)
next
  assume "mergeFiles s2 = mergeFiles s"
  then show "snd (mergeBtn cd s2) = snd (mergeBtn cd s)"
    by (simp add: mergeBtn_def split: sum.splits option.splits)
qed

theorem merge_concatenates_witness:
  "(2::nat) \<le> length (mergeFiles stateMerge)
   \<and> map (pdf_load listCodec) (mergeFiles stateMerge) = map Some [docA12, docB123]
   \<and> mergeBtn listCodec stateMerge
       = (stateMerge, Inr [mkPage ''A1'' None, mkPage ''A2'' None,
                           mkPage ''B1'' None, mkPage ''B2'' (Some 90), mkPage ''B3'' None])
   \<and> length (mergeFiles (stateMerge\<lparr>mergeFiles := [docA12]\<rparr>)) < 2
   \<and> mergeBtn listCodec (stateMerge\<lparr>mergeFiles := [docA12]\<rparr>)
       = (stateMerge\<lparr>mergeFiles := [docA12]\<rparr>, Inl InsufficientInputs)
   \<and> mergeFiles (stateMerge\<lparr>rawBytes := Some docABC, pageOrder := [Num 1]\<rparr>) = mergeFiles stateMerge
   \<and> snd (mergeBtn listCodec (stateMerge\<lparr>rawBytes := Some docABC, pageOrder := [Num 1]\<rparr>))
       = snd (mergeBtn listCodec stateMerge)"
proof -
  have h1: "2 \<le> length (mergeFiles stateMerge)"
    by (simp add: stateMerge_def)
  have h2: "map (pdf_load listCodec) (mergeFiles stateMerge) = map Some [docA12, docB123]"
    by (simp add: stateMerge_def listCodec_def)
  have h3: "length (mergeFiles (stateMerge\<lparr>mergeFiles := [docA12]\<rparr>)) < 2"
    by simp
  have h4: "mergeFiles (stateMerge\<lparr>rawBytes := Some docABC, pageOrder := [Num 1]\<rparr>)
              = mergeFiles stateMerge"
    by simp
  note t = merge_concatenates[of stateMerge listCodec "[docA12, docB123]"
      "stateMerge\<lparr>rawBytes := Some docABC, pageOrder := [Num 1]\<rparr>"]
  note u = merge_concatenates[of "stateMerge\<lparr>mergeFiles := [docA12]\<rparr>" listCodec "[]" stateMerge]
  have m: "mergeBtn listCodec stateMerge
       = (stateMerge, case pdf_save listCodec (concat [docA12, docB123]) of
                        None \<Rightarrow> Inl CodecSaveError | Some out \<Rightarrow> Inr out)"
    using t h1 h2 by blast
  have m': "mergeBtn listCodec stateMerge
       = (stateMerge, Inr [mkPage ''A1'' None, mkPage ''A2'' None,
                           mkPage ''B1'' None, mkPage ''B2'' (Some 90), mkPage ''B3'' None])"
    unfolding m by (simp add: listCodec_def docA12_def docB123_def)
  have i: "mergeBtn listCodec (stateMerge\<lparr>mergeFiles := [docA12]\<rparr>)
       = (stateMerge\<lparr>mergeFiles := [docA12]\<rparr>, Inl InsufficientInputs)"
    using u h3 by blast
  have e: "snd (mergeBtn listCodec (stateMerge\<lparr>rawBytes := Some docABC, pageOrder := [Num 1]\<rparr>))
       = snd (mergeBtn listCodec stateMerge)"
    using t h4 by blast
  show ?thesis
    using h1 h2 m' h3 i h4 e by blast
qed

subsection \<open>Split\<close>

lemma copyPages_splitRange:
  assumes "1 \<le> f" and "f \<le> t" and "t \<le> int (length src)"
  shows "copyPages src (splitRange f t) = Some (take (nat (t - f + 1)) (drop (nat (f - 1)) src))"
proof -
  let ?m = "nat (t - f + 1)" and ?a = "nat (f - 1)"
  let ?ks = "map (\<lambda>i. ?a + i) [0..<?m]"
  have r: "splitRange f t = map (\<lambda>k. Num (int k)) ?ks"
    using assms(1) by (simp add: splitRange_def)
  have am: "?a + ?m \<le> length src"
    using assms by linarith
  then have v: "\<forall>k\<in>set ?ks. k < length src"
    by auto
  have "map ((!) src) ?ks = take ?m (drop ?a src)"
  proof (rule nth_equalityI)
    show "length (map ((!) src) ?ks) = length (take ?m (drop ?a src))"
      using am by simp
  next
    fix i assume "i < length (map ((!) src) ?ks)"
    then have i: "i < ?m" by simp
    then show "map ((!) src) ?ks ! i = take ?m (drop ?a src) ! i"
      using am by simp
  qed
  then show ?thesis
    unfolding r using copyPages_valid[OF v] by simp
qed

lemma splitAccepts_range:
  "splitAccepts s (Some f) (Some t) \<longleftrightarrow> 1 \<le> f \<and> f \<le> t \<and> t \<le> int (totalPages s)"
  by (auto simp: splitAccepts_def)

text \<open>
  Claim C10. Two sessions that hold the same \<^verbatim>\<open>S.rawBytes\<close> and both accept the range
  give the same \<^verbatim>\<open>splitBtn\<close> result, whatever their order tables, rotation ledgers and
  selections are; \<^verbatim>\<open>splitBtn\<close> changes no state; and for a range inside the loaded
  document the result is the serialisation of pages \<open>from, \<dots>, to\<close> of the snapshot.
\<close>

theorem split_ignores_pending_edits:
  "(rawBytes s1 = rawBytes s2 \<and> splitAccepts s1 from to \<and> splitAccepts s2 from to
      \<longrightarrow> snd (splitBtn cd from to s1) = snd (splitBtn cd from to s2))
   \<and> fst (splitBtn cd from to s) = s
   \<and> (rawBytes s = Some bytes \<and> pdf_load cd bytes = Some src
        \<and> splitAccepts s (Some f) (Some t) \<and> t \<le> int (length src)
      \<longrightarrow> snd (splitBtn cd (Some f) (Some t) s)
            = (case pdf_save cd (take (nat (t - f + 1)) (drop (nat (f - 1)) src)) of
                 None \<Rightarrow> Inl CodecSaveError
               | Some out \<Rightarrow> Inr out))"
proof (intro conjI impI)
  assume "rawBytes s1 = rawBytes s2 \<and> splitAccepts s1 from to \<and> splitAccepts s2 from to"
  then show "snd (splitBtn cd from to s1) = snd (splitBtn cd from to s2)"
    by (simp add: splitBtn_def split: option.splits)
next
  show "fst (splitBtn cd from to s) = s"
    by (simp add: splitBtn_def split: option.splits)
next
  assume h: "rawBytes s = Some bytes \<and> pdf_load cd bytes = Some src
        \<and> splitAccepts s (Some f) (Some t) \<and> t \<le> int (length src)"
  then have "1 \<le> f" "f \<le> t" "t \<le> int (length src)"
    by (simp_all add: splitAccepts_range)
  then have "copyPages src (splitRange f t)
               = Some (take (nat (t - f + 1)) (drop (nat (f - 1)) src))"
    by (rule copyPages_splitRange)
  then show "snd (splitBtn cd (Some f) (Some t) s)
            = (case pdf_save cd (take (nat (t - f + 1)) (drop (nat (f - 1)) src)) of
                 None \<Rightarrow> Inl CodecSaveError
               | Some out \<Rightarrow> Inr out)"
    using h by (simp add: splitBtn_def split: option.splits)
qed

theorem split_ignores_pending_edits_witness:
  "rawBytes stateABC = rawBytes stateEdited
   \<and> splitAccepts stateABC (Some 1) (Some 2) \<and> splitAccepts stateEdited (Some 1) (Some 2)
   \<and> pageOrder stateABC \<noteq> pageOrder stateEdited
   \<and> snd (splitBtn listCodec (Some 1) (Some 2) stateABC) = Inr [mkPage ''A'' None, mkPage ''B'' None]
   \<and> snd (splitBtn listCodec (Some 1) (Some 2) stateEdited) = Inr [mkPage ''A'' None, mkPage ''B'' None]
   \<and> fst (splitBtn listCodec (Some 1) (Some 2) stateEdited) = stateEdited"
proof -
  have rb: "rawBytes stateABC = Some docABC" "rawBytes stateEdited = Some docABC"
    by (simp_all add: stateEdited_def stateABC_eval)
  have acc: "splitAccepts stateABC (Some 1) (Some 2)" "splitAccepts stateEdited (Some 1) (Some 2)"
    by (simp_all add: splitAccepts_def stateEdited_def stateABC_eval)
  have ne: "pageOrder stateABC \<noteq> pageOrder stateEdited"
    by (simp add: stateEdited_def stateABC_eval)
  have ld: "pdf_load listCodec docABC = Some docABC"
    by (simp add: listCodec_def)
  have len: "(2::int) \<le> int (length docABC)"
    by (simp add: docABC_def)
  note t = split_ignores_pending_edits[of stateABC stateEdited "Some 1" "Some 2" listCodec
      stateEdited docABC docABC 1 2]
  note u = split_ignores_pending_edits[of stateABC stateEdited "Some 1" "Some 2" listCodec
      stateABC docABC docABC 1 2]
  have same: "snd (splitBtn listCodec (Some 1) (Some 2) stateABC)
                = snd (splitBtn listCodec (Some 1) (Some 2) stateEdited)"
    using t rb acc by simp
  have unchanged: "fst (splitBtn listCodec (Some 1) (Some 2) stateEdited) = stateEdited"
    using t by simp
  have "snd (splitBtn listCodec (Some 1) (Some 2) stateABC)
          = (case pdf_save listCodec (take (nat (2 - 1 + 1)) (drop (nat (1 - 1)) docABC)) of
               None \<Rightarrow> Inl CodecSaveError | Some out \<Rightarrow> Inr out)"
    using u rb(1) ld acc(1) len by blast
  then have out: "snd (splitBtn listCodec (Some 1) (Some 2) stateABC)
                    = Inr [mkPage ''A'' None, mkPage ''B'' None]"
    by (simp add: listCodec_def docABC_def)
  show ?thesis
    using rb acc ne same unchanged out by simp
qed

end
